theory Spec2Isabelle
  imports Complex_Main "HOL-Library.Word"
begin

section \<open>JavaScript values used by the pipeline\<close>

text \<open>
  A JavaScript string is a sequence of 16-bit code units; \<open>length\<close>, \<open>slice\<close>,
  \<open>trim\<close> and a regular expression without the \<open>u\<close> flag all work on code units.
  \<open>js\<close> writes an ASCII literal as such a sequence.
\<close>

type_synonym code_unit = "16 word"
type_synonym jsstring = "code_unit list"

definition js :: "string \<Rightarrow> jsstring" where
  "js s = map (\<lambda>c. of_nat (of_char c)) s"

text \<open>Every value thrown in these files is an \<open>Error\<close> carrying a message.\<close>

datatype error = Error jsstring

fun message_of :: "error \<Rightarrow> jsstring" where
  "message_of (Error m) = m"

text \<open>
  \<open>number_toString\<close> is the decimal rendering a template literal gives a non-negative
  integer (array indices, counts and HTTP status codes are all far below the
  \<open>1e21\<close> at which JavaScript switches to exponent notation).
\<close>

definition digit :: "nat \<Rightarrow> code_unit" where
  "digit d = of_nat (48 + d)"

function number_toString :: "nat \<Rightarrow> jsstring" where
  "number_toString n =
     (if n < 10 then [digit n] else number_toString (n div 10) @ [digit (n mod 10)])"
  by pat_completeness auto
termination
  by (relation "measure (\<lambda>n. n)") auto

declare number_toString.simps [simp del]

type_synonym vector = "real list"

section \<open>geminiEmbeddings.ts: the embedding client\<close>

record ApiError =
  code :: int
  message :: jsstring
  status_name :: jsstring

record Embedding =
  "values" :: vector

text \<open>\<open>EmbedContentResponse\<close>: both members are optional.\<close>

record EmbedContentResponse =
  embedding :: "Embedding option"
  error :: "ApiError option"

text \<open>
  What \<open>fetch\<close> resolves to: \<open>res.ok\<close>, \<open>res.status\<close>, and \<open>res.json()\<close>, which
  throws when the body is not JSON.
\<close>

record Response =
  ok :: bool
  status :: nat
  json :: "error + EmbedContentResponse"

text \<open>The request \<open>embedQuery\<close> sends: the URL and the two members of the JSON body.\<close>

record EmbedRequest =
  url :: jsstring
  body_text :: jsstring
  body_outputDimensionality :: nat

type_synonym fetch_fn = "EmbedRequest \<Rightarrow> error + Response"

record GeminiOptions =
  opt_apiKey :: jsstring
  opt_modelName :: "jsstring option"
  opt_outputDimensionality :: "nat option"

record GeminiEmbeddings =
  apiKey :: jsstring
  modelName :: jsstring
  outputDimensionality :: nat

text \<open>The constructor: \<open>??\<close> supplies the defaults.\<close>

definition new_GeminiEmbeddings :: "GeminiOptions \<Rightarrow> GeminiEmbeddings" where
  "new_GeminiEmbeddings options =
     \<lparr> apiKey = opt_apiKey options,
       modelName = (case opt_modelName options of None \<Rightarrow> js ''gemini-embedding-001''
                    | Some m \<Rightarrow> m),
       outputDimensionality = (case opt_outputDimensionality options of None \<Rightarrow> 1024
                    | Some d \<Rightarrow> d) \<rparr>"

definition embed_request :: "GeminiEmbeddings \<Rightarrow> jsstring \<Rightarrow> EmbedRequest" where
  "embed_request this text =
     \<lparr> url = js ''https://generativelanguage.googleapis.com/v1beta/models/''
             @ modelName this @ js '':embedContent?key='' @ apiKey this,
       body_text = text,
       body_outputDimensionality = outputDimensionality this \<rparr>"

text \<open>
  \<open>embedQuery\<close>. The two \<open>throw\<close> statements are the two \<open>Inl (Error _)\<close> branches; a
  rejected \<open>fetch\<close> or a failing \<open>res.json()\<close> propagates its own error.
\<close>

definition embedQuery :: "GeminiEmbeddings \<Rightarrow> fetch_fn \<Rightarrow> jsstring \<Rightarrow> error + vector" where
  "embedQuery this fetch text =
     (case fetch (embed_request this text) of
        Inl e \<Rightarrow> Inl e
      | Inr res \<Rightarrow>
          (case json res of
             Inl e \<Rightarrow> Inl e
           | Inr data \<Rightarrow>
               if \<not> ok res \<or> error data \<noteq> None
               then Inl (Error (js ''Gemini embedContent failed ('' @ number_toString (status res)
                         @ js ''): ''
                         @ (case error data of Some e \<Rightarrow> message e
                            | None \<Rightarrow> js ''unknown error'')))
               else
                 (case map_option values (embedding data) of
                    None \<Rightarrow> Inl (Error (js ''Gemini embedContent returned an empty vector for: \"''
                                @ take 60 text @ js ''\"''))
                  | Some vs \<Rightarrow>
                      if length vs = 0
                      then Inl (Error (js ''Gemini embedContent returned an empty vector for: \"''
                                @ take 60 text @ js ''\"''))
                      else Inr vs)))"

text \<open>
  \<open>embedDocuments\<close>: one \<open>embedQuery\<close> per document, in order, stopping at the first
  that throws. The \<open>k\<close>-th call of the loop reaches the provider through \<open>fetch k\<close>, so
  that the provider may answer two calls on the same text differently.
\<close>

fun embedDocuments ::
  "GeminiEmbeddings \<Rightarrow> (nat \<Rightarrow> fetch_fn) \<Rightarrow> nat \<Rightarrow> jsstring list \<Rightarrow> error + vector list" where
  "embedDocuments this fetch k [] = Inr []"
| "embedDocuments this fetch k (doc # documents) =
     (case embedQuery this (fetch k) doc of
        Inl e \<Rightarrow> Inl e
      | Inr v \<Rightarrow>
          (case embedDocuments this fetch (Suc k) documents of
             Inl e \<Rightarrow> Inl e
           | Inr results \<Rightarrow> Inr (v # results)))"

section \<open>ingestPdfs.ts: ingestion\<close>

subsection \<open>Data\<close>

definition BATCH_SIZE :: nat where
  "BATCH_SIZE = 20"

text \<open>\<open>fs.Stats\<close>, of which the code reads \<open>size\<close> and \<open>mtimeMs\<close>.\<close>

record Stats =
  stat_size :: nat
  mtimeMs :: real

record IngestedFile =
  filename :: jsstring
  file_size :: nat
  lastModified :: real
  ingestedAt :: jsstring
  chunkCount :: nat
  pageCount :: nat

text \<open>
  \<open>TrackerData\<close>: an object used as a dictionary from file name to record. The keys
  looked up are names of PDF files.
\<close>

type_synonym TrackerData = "jsstring \<rightharpoonup> IngestedFile"

text \<open>
  Metadata stored with a vector: an object whose members are strings and numbers
  here, kept as the list of its members so that both the five keys written at ingestion
  and the keys read back by the query route are looked up by name.
\<close>

datatype mvalue = MString jsstring | MNumber nat

type_synonym metadata = "(jsstring \<times> mvalue) list"

record VectorRecord =
  rec_id :: jsstring
  rec_values :: vector
  rec_metadata :: metadata

text \<open>The lines written to the console, by format and arguments.\<close>

datatype log_line =
    LogSkipConfig
  | LogCreatedDir
  | LogNoPdfs
  | LogAllIngested "jsstring list"
  | LogIngesting nat
  | LogProcessing jsstring
  | LogNoText jsstring
  | LogZeroChunks jsstring
  | LogSuccess jsstring nat nat
  | LogFailed jsstring jsstring
  | LogComplete

subsection \<open>The collaborators\<close>

text \<open>
  Everything the function reads from outside: the environment, the file system, the
  PDF parser, the text splitter, the clock, the embedding provider and the vector
  store. File-system calls are keyed by file name. The provider's answer to the request
  for chunk \<open>k\<close> of document \<open>name\<close> is \<open>provider name k\<close>, and the outcome of the
  \<open>index.upsert\<close> call for the batch of \<open>name\<close> that starts at chunk \<open>i\<close> is
  \<open>upsert name i\<close>: within a run each such call happens at most once, so this fixes
  nothing about how the collaborators behave. \<open>None\<close> is a call that returns,
  \<open>Some e\<close> one that throws \<open>e\<close>. \<open>pdf_names\<close> are the names \<open>readdirSync\<close> returns
  that end in \<open>.pdf\<close>; listing the folder, loading the parser and creating the
  clients are taken to succeed.
\<close>

record world =
  GOOGLE_API_KEY :: "jsstring option"
  PINECONE_API_KEY :: "jsstring option"
  PINECONE_INDEX :: "jsstring option"
  pdfs_dir_exists :: bool
  pdf_names :: "jsstring list"
  tracker_file :: "TrackerData option"
  statSync_scan :: "jsstring \<Rightarrow> error + Stats"
  readFileSync :: "jsstring \<Rightarrow> error + nat list"
  statSync :: "jsstring \<Rightarrow> error + Stats"
  getText :: "nat list \<Rightarrow> error + jsstring \<times> nat"
  splitText :: "jsstring \<Rightarrow> error + jsstring list"
  toISOString_now :: "jsstring \<Rightarrow> jsstring"
  provider :: "jsstring \<Rightarrow> nat \<Rightarrow> fetch_fn"
  upsert :: "jsstring \<Rightarrow> nat \<Rightarrow> VectorRecord list \<Rightarrow> error option"
  writeFileSync :: "jsstring \<Rightarrow> TrackerData \<Rightarrow> error option"

text \<open>\<open>!process.env.X\<close>: the variable is unset or the empty string.\<close>

definition unset :: "jsstring option \<Rightarrow> bool" where
  "unset v = (case v of None \<Rightarrow> True | Some s \<Rightarrow> s = [])"

subsection \<open>String helpers\<close>

text \<open>
  \<open>String.prototype.trim\<close> strips white space and line terminators from both ends.
\<close>

definition is_white_space :: "code_unit \<Rightarrow> bool" where
  "is_white_space c =
     (c \<in> set [0x0009, 0x000A, 0x000B, 0x000C, 0x000D, 0x0020, 0x00A0, 0x1680,
                0x2000, 0x2001, 0x2002, 0x2003, 0x2004, 0x2005, 0x2006, 0x2007,
                0x2008, 0x2009, 0x200A, 0x2028, 0x2029, 0x202F, 0x205F, 0x3000, 0xFEFF])"

definition trim :: "jsstring \<Rightarrow> jsstring" where
  "trim s = rev (dropWhile is_white_space (rev (dropWhile is_white_space s)))"

text \<open>
  \<open>name.replace(/[^a-zA-Z0-9-_]/g, "_")\<close>: every code unit outside the class becomes
  an underscore.
\<close>

definition id_safe :: "code_unit \<Rightarrow> bool" where
  "id_safe c =
     ((0x61 \<le> c \<and> c \<le> 0x7A) \<or> (0x41 \<le> c \<and> c \<le> 0x5A) \<or> (0x30 \<le> c \<and> c \<le> 0x39)
      \<or> c = 0x2D \<or> c = 0x5F)"

definition sanitize :: "jsstring \<Rightarrow> jsstring" where
  "sanitize name = map (\<lambda>c. if id_safe c then c else 0x5F) name"

subsection \<open>Tracker helpers\<close>

text \<open>\<open>loadTracker\<close>: a missing or corrupted file gives the empty object.\<close>

definition loadTracker :: "world \<Rightarrow> TrackerData" where
  "loadTracker w = (case tracker_file w of None \<Rightarrow> Map.empty | Some data \<Rightarrow> data)"

subsection \<open>One batch\<close>

text \<open>
  The records of one batch (\<open>batch.map((text, j) => ...)\<close>). \<open>embedDocuments\<close> returns
  one vector per text, so \<open>vectors[j]\<close> is always in range.
\<close>

definition build_records ::
  "jsstring \<Rightarrow> nat \<Rightarrow> jsstring \<Rightarrow> nat \<Rightarrow> jsstring list \<Rightarrow> vector list \<Rightarrow> VectorRecord list" where
  "build_records name totalChunks ingested_at i batch vectors =
     map (\<lambda>(j, text).
            \<lparr> rec_id = sanitize name @ js ''-chunk-'' @ number_toString (i + j),
              rec_values = vectors ! j,
              rec_metadata =
                [(js ''text'', MString text),
                 (js ''source'', MString name),
                 (js ''chunkIndex'', MNumber (i + j)),
                 (js ''totalChunks'', MNumber totalChunks),
                 (js ''ingestedAt'', MString ingested_at)] \<rparr>)
         (enumerate 0 batch)"

text \<open>
  The texts for which \<open>embedDocuments\<close> calls the provider: every text up to and
  including the first on which \<open>embedQuery\<close> throws.
\<close>

fun embed_attempts ::
  "GeminiEmbeddings \<Rightarrow> (nat \<Rightarrow> fetch_fn) \<Rightarrow> nat \<Rightarrow> jsstring list \<Rightarrow> jsstring list" where
  "embed_attempts this fetch k [] = []"
| "embed_attempts this fetch k (doc # documents) =
     doc # (case embedQuery this (fetch k) doc of
              Inl e \<Rightarrow> []
            | Inr v \<Rightarrow> embed_attempts this fetch (Suc k) documents)"

subsection \<open>The batch loop\<close>

text \<open>
  What the loop \<open>for (let i = 0; i < chunks.length; i += BATCH_SIZE)\<close> did: the value
  of \<open>upserted\<close> when it ends, or the error that ended it, with the texts sent to the
  provider and the batches sent to the store, each in call order.
\<close>

record batch_run =
  b_result :: "error + nat"
  b_embedded :: "jsstring list"
  b_upserted :: "VectorRecord list list"

function upsert_batches ::
  "world \<Rightarrow> GeminiEmbeddings \<Rightarrow> jsstring \<Rightarrow> jsstring list \<Rightarrow> jsstring \<Rightarrow> nat \<Rightarrow> nat \<Rightarrow> batch_run" where
  "upsert_batches w embedder name chunks ingested_at i upserted =
     (if i < length chunks then
        (let batch = take BATCH_SIZE (drop i chunks);
             calls = embed_attempts embedder (\<lambda>k. provider w name (i + k)) 0 batch
         in case embedDocuments embedder (\<lambda>k. provider w name (i + k)) 0 batch of
              Inl e \<Rightarrow> \<lparr> b_result = Inl e, b_embedded = calls, b_upserted = [] \<rparr>
            | Inr vectors \<Rightarrow>
                (let records = build_records name (length chunks) ingested_at i batch vectors
                 in case upsert w name i records of
                      Some e \<Rightarrow> \<lparr> b_result = Inl e, b_embedded = calls, b_upserted = [records] \<rparr>
                    | None \<Rightarrow>
                        (let rest = upsert_batches w embedder name chunks ingested_at
                                      (i + BATCH_SIZE) (upserted + length records)
                         in \<lparr> b_result = b_result rest,
                              b_embedded = calls @ b_embedded rest,
                              b_upserted = records # b_upserted rest \<rparr>)))
      else \<lparr> b_result = Inr upserted, b_embedded = [], b_upserted = [] \<rparr>)"
  by pat_completeness auto
termination
  by (relation "measure (\<lambda>(w, embedder, name, chunks, ingested_at, i, upserted).
                            length chunks - i)")
     (auto simp: BATCH_SIZE_def)

declare upsert_batches.simps [simp del]

subsection \<open>One document\<close>

text \<open>How the body of the \<open>try\<close> block ends.\<close>

datatype completion = Normal | Continue | Throw error

text \<open>
  What one iteration of the document loop did: how the \<open>try\<close> body ended, the
  in-memory tracker afterwards, the texts sent to the provider, the batches sent to the
  store, the data passed to \<open>saveTracker\<close>, and the console lines.
\<close>

record doc_run =
  completion :: completion
  tracker_after :: TrackerData
  embedded :: "jsstring list"
  upserted_batches :: "VectorRecord list list"
  saved :: "TrackerData list"
  logged :: "log_line list"

definition thrown :: "error \<Rightarrow> TrackerData \<Rightarrow> doc_run" where
  "thrown e tracker =
     \<lparr> completion = Throw e, tracker_after = tracker, embedded = [], upserted_batches = [],
       saved = [], logged = [] \<rparr>"

definition skipped :: "log_line \<Rightarrow> TrackerData \<Rightarrow> doc_run" where
  "skipped line tracker =
     \<lparr> completion = Continue, tracker_after = tracker, embedded = [], upserted_batches = [],
       saved = [], logged = [line] \<rparr>"

text \<open>The chunks kept after splitting: \<open>.filter((c) => c.trim().length > 0)\<close>.\<close>

definition nonblank :: "jsstring list \<Rightarrow> jsstring list" where
  "nonblank parts = filter (\<lambda>c. length (trim c) > 0) parts"

text \<open>The body of the \<open>try\<close> block for the file \<open>name\<close>.\<close>

definition ingest_body :: "world \<Rightarrow> GeminiEmbeddings \<Rightarrow> TrackerData \<Rightarrow> jsstring \<Rightarrow> doc_run" where
  "ingest_body w embedder tracker name =
     (case readFileSync w name of
        Inl e \<Rightarrow> thrown e tracker
      | Inr buffer \<Rightarrow>
     (case statSync w name of
        Inl e \<Rightarrow> thrown e tracker
      | Inr stats \<Rightarrow>
     (case getText w buffer of
        Inl e \<Rightarrow> thrown e tracker
      | Inr (rawText, pages) \<Rightarrow>
          if rawText = [] \<or> length (trim rawText) = 0 then skipped (LogNoText name) tracker
          else
     (case splitText w rawText of
        Inl e \<Rightarrow> thrown e tracker
      | Inr parts \<Rightarrow>
          (let chunks = nonblank parts in
           if length chunks = 0 then skipped (LogZeroChunks name) tracker
           else
             (let ingested_at = toISOString_now w name;
                  b = upsert_batches w embedder name chunks ingested_at 0 0
              in case b_result b of
                   Inl e \<Rightarrow>
                     \<lparr> completion = Throw e, tracker_after = tracker,
                       embedded = b_embedded b, upserted_batches = b_upserted b,
                       saved = [], logged = [] \<rparr>
                 | Inr upserted \<Rightarrow>
                     (let tracker' = tracker(name \<mapsto>
                            \<lparr> filename = name, file_size = stat_size stats,
                              lastModified = mtimeMs stats, ingestedAt = ingested_at,
                              chunkCount = upserted, pageCount = pages \<rparr>)
                      in case writeFileSync w name tracker' of
                           Some e \<Rightarrow>
                             \<lparr> completion = Throw e, tracker_after = tracker',
                               embedded = b_embedded b, upserted_batches = b_upserted b,
                               saved = [tracker'], logged = [] \<rparr>
                         | None \<Rightarrow>
                             \<lparr> completion = Normal, tracker_after = tracker',
                               embedded = b_embedded b, upserted_batches = b_upserted b,
                               saved = [tracker'],
                               logged = [LogSuccess name upserted pages] \<rparr>)))))))"

text \<open>
  One iteration of \<open>for (const { name, fullPath } of toIngest)\<close>: the line announcing
  the file, the \<open>try\<close> body, and the \<open>catch\<close> clause, which logs the message of
  whatever was thrown and lets the loop go on.
\<close>

definition ingest_one :: "world \<Rightarrow> GeminiEmbeddings \<Rightarrow> TrackerData \<Rightarrow> jsstring \<Rightarrow> doc_run" where
  "ingest_one w embedder tracker name =
     (let d = ingest_body w embedder tracker name
      in d \<lparr> logged := LogProcessing name # logged d
                 @ (case completion d of
                      Throw e \<Rightarrow> [LogFailed name (message_of e)]
                    | _ \<Rightarrow> []) \<rparr>)"

subsection \<open>The run\<close>

text \<open>The document loop: each iteration starts from the tracker the previous one left.\<close>

fun ingest_loop ::
  "world \<Rightarrow> GeminiEmbeddings \<Rightarrow> TrackerData \<Rightarrow> jsstring list \<Rightarrow> (jsstring \<times> doc_run) list" where
  "ingest_loop w embedder tracker [] = []"
| "ingest_loop w embedder tracker (name # rest) =
     (let d = ingest_one w embedder tracker name
      in (name, d) # ingest_loop w embedder (tracker_after d) rest)"

text \<open>
  The callback of \<open>pdfFiles.filter\<close>: a file is kept when the tracker has no record
  of it or the record's size or modification time differs from the file's.
\<close>

definition changed :: "TrackerData \<Rightarrow> jsstring \<Rightarrow> Stats \<Rightarrow> bool" where
  "changed tracker name stats =
     (case tracker name of
        None \<Rightarrow> True
      | Some record \<Rightarrow> file_size record \<noteq> stat_size stats \<or> lastModified record \<noteq> mtimeMs stats)"

text \<open>
  \<open>toIngest\<close>. The \<open>statSync\<close> of the callback is outside any \<open>try\<close>: if it throws,
  \<open>filter\<close> and with it the whole function throws.
\<close>

fun toIngest :: "world \<Rightarrow> TrackerData \<Rightarrow> jsstring list \<Rightarrow> error + jsstring list" where
  "toIngest w tracker [] = Inr []"
| "toIngest w tracker (name # names) =
     (case statSync_scan w name of
        Inl e \<Rightarrow> Inl e
      | Inr stats \<Rightarrow>
          (case toIngest w tracker names of
             Inl e \<Rightarrow> Inl e
           | Inr kept \<Rightarrow> Inr (if changed tracker name stats then name # kept else kept)))"

text \<open>
  What a call of \<open>ingestAllPdfs\<close> did: the iterations of the document loop, each with
  its file name, and the console.
\<close>

record run =
  iterations :: "(jsstring \<times> doc_run) list"
  console :: "log_line list"

definition quiet :: "log_line \<Rightarrow> run" where
  "quiet line = \<lparr> iterations = [], console = [line] \<rparr>"

text \<open>The embedder shared by all documents of a run.\<close>

definition ingest_embedder :: "world \<Rightarrow> GeminiEmbeddings" where
  "ingest_embedder w =
     new_GeminiEmbeddings
       \<lparr> opt_apiKey = the (GOOGLE_API_KEY w),
         opt_modelName = Some (js ''gemini-embedding-001''),
         opt_outputDimensionality = Some 1024 \<rparr>"

definition ingestAllPdfs :: "world \<Rightarrow> error + run" where
  "ingestAllPdfs w =
     (if unset (GOOGLE_API_KEY w) \<or> unset (PINECONE_API_KEY w) \<or> unset (PINECONE_INDEX w)
      then Inr (quiet LogSkipConfig)
      else if \<not> pdfs_dir_exists w then Inr (quiet LogCreatedDir)
      else if length (pdf_names w) = 0 then Inr (quiet LogNoPdfs)
      else
        (let tracker = loadTracker w in
         case toIngest w tracker (pdf_names w) of
           Inl e \<Rightarrow> Inl e
         | Inr files \<Rightarrow>
             if length files = 0 then Inr (quiet (LogAllIngested (pdf_names w)))
             else
               (let embedder = ingest_embedder w;
                    its = ingest_loop w embedder tracker files
                in Inr \<lparr> iterations = its,
                         console = LogIngesting (length files)
                                   # concat (map (\<lambda>(name, d). logged d) its)
                                   @ [LogComplete] \<rparr>)))"

text \<open>The provider calls and the store writes of a whole run.\<close>

definition run_embedded :: "run \<Rightarrow> jsstring list" where
  "run_embedded r = concat (map (\<lambda>(name, d). embedded d) (iterations r))"

definition run_upserted :: "run \<Rightarrow> VectorRecord list list" where
  "run_upserted r = concat (map (\<lambda>(name, d). upserted_batches d) (iterations r))"

section \<open>Vocabulary for the properties of ingestion\<close>

text \<open>
  Consecutive batches of a fixed size, as the specification describes them: the list
  cut into slices of \<open>n\<close> elements, the last slice holding what remains.
\<close>

function batches_of :: "nat \<Rightarrow> 'a list \<Rightarrow> 'a list list" where
  "batches_of n xs = (if n = 0 \<or> xs = [] then [] else take n xs # batches_of n (drop n xs))"
  by pat_completeness auto
termination
  by (relation "measure (\<lambda>(n, xs). length xs)") auto

declare batches_of.simps [simp del]

text \<open>
  The record expected in the store for chunk \<open>k\<close> of a document: its identifier, the
  vector the client returned for the chunk's text, and the five metadata members.
\<close>

definition embedded_vector ::
  "world \<Rightarrow> GeminiEmbeddings \<Rightarrow> jsstring \<Rightarrow> jsstring list \<Rightarrow> nat \<Rightarrow> vector" where
  "embedded_vector w embedder name chunks k =
     (case embedQuery embedder (provider w name k) (chunks ! k) of Inl e \<Rightarrow> [] | Inr v \<Rightarrow> v)"

definition chunk_record ::
  "world \<Rightarrow> GeminiEmbeddings \<Rightarrow> jsstring \<Rightarrow> jsstring list \<Rightarrow> jsstring \<Rightarrow> nat \<Rightarrow> VectorRecord" where
  "chunk_record w embedder name chunks stamp k =
     \<lparr> rec_id = sanitize name @ js ''-chunk-'' @ number_toString k,
       rec_values = embedded_vector w embedder name chunks k,
       rec_metadata =
         [(js ''text'', MString (chunks ! k)),
          (js ''source'', MString name),
          (js ''chunkIndex'', MNumber k),
          (js ''totalChunks'', MNumber (length chunks)),
          (js ''ingestedAt'', MString stamp)] \<rparr>"

section \<open>api/query/route.ts: the query route\<close>

definition TOP_K :: nat where
  "TOP_K = 4"

text \<open>
  A source descriptor, as the route builds it: an object with the three members
  \<open>source\<close>, \<open>chunkIndex\<close> and \<open>uploadedAt\<close>, each \<open>undefined\<close> (\<open>None\<close>) when the
  metadata read has no such member. The cast \<open>as ChunkMetadata\<close> checks nothing at run
  time, so a member holds whatever value the store returned.
\<close>

record ChunkMetadata =
  source :: "mvalue option"
  chunkIndex :: "mvalue option"
  uploadedAt :: "mvalue option"

text \<open>One element of \<open>queryResponse.matches\<close>; \<open>metadata\<close> may be absent.\<close>

record ScoredRecord =
  match_id :: jsstring
  score :: real
  match_metadata :: "metadata option"

text \<open>\<open>(m.metadata as ChunkMetadata)?.key\<close>.\<close>

definition member :: "metadata option \<Rightarrow> jsstring \<Rightarrow> mvalue option" where
  "member md key = (case md of None \<Rightarrow> None | Some obj \<Rightarrow> map_of obj key)"

text \<open>\<open>Boolean(v)\<close> and \<open>String(v)\<close> on metadata values, as \<open>filter\<close> and \<open>join\<close> apply them.\<close>

fun truthy :: "mvalue \<Rightarrow> bool" where
  "truthy (MString s) = (s \<noteq> [])"
| "truthy (MNumber n) = (n \<noteq> 0)"

fun to_jsstring :: "mvalue \<Rightarrow> jsstring" where
  "to_jsstring (MString s) = s"
| "to_jsstring (MNumber n) = number_toString n"

fun join :: "jsstring \<Rightarrow> jsstring list \<Rightarrow> jsstring" where
  "join sep [] = []"
| "join sep [x] = x"
| "join sep (x # y # ys) = x @ sep @ join sep (y # ys)"

text \<open>Step 3: the context, the texts of the matches joined by \<open>"\n\n---\n\n"\<close>.\<close>

definition build_context :: "ScoredRecord list \<Rightarrow> jsstring" where
  "build_context matches =
     join [0x0A, 0x0A, 0x2D, 0x2D, 0x2D, 0x0A, 0x0A]
       (map to_jsstring
          (filter truthy
             (map (\<lambda>m. case member (match_metadata m) (js ''text'') of
                          None \<Rightarrow> MString [] | Some v \<Rightarrow> v)
                  matches)))"

text \<open>
  A JavaScript \<open>Map\<close> keeps its entries in insertion order. \<open>set\<close> on a key that is
  already present replaces the value and leaves the entry where it is; on a new key it
  appends an entry. \<open>new Map(entries)\<close> calls \<open>set\<close> for each entry in turn, and
  \<open>values()\<close> lists the values in entry order.
\<close>

fun Map_set :: "('k \<times> 'v) list \<Rightarrow> 'k \<Rightarrow> 'v \<Rightarrow> ('k \<times> 'v) list" where
  "Map_set [] k v = [(k, v)]"
| "Map_set ((k', v') # entries) k v =
     (if k' = k then (k, v) # entries else (k', v') # Map_set entries k v)"

definition new_Map :: "('k \<times> 'v) list \<Rightarrow> ('k \<times> 'v) list" where
  "new_Map entries = foldl (\<lambda>m (k, v). Map_set m k v) [] entries"

definition Map_values :: "('k \<times> 'v) list \<Rightarrow> 'v list" where
  "Map_values m = map snd m"

text \<open>Step 5: the descriptor of one match, and the deduplicated source list.\<close>

definition descriptor :: "ScoredRecord \<Rightarrow> ChunkMetadata" where
  "descriptor m =
     \<lparr> source = member (match_metadata m) (js ''source''),
       chunkIndex = member (match_metadata m) (js ''chunkIndex''),
       uploadedAt = member (match_metadata m) (js ''uploadedAt'') \<rparr>"

definition uniqueSources :: "ScoredRecord list \<Rightarrow> ChunkMetadata list" where
  "uniqueSources matches =
     (let sources = map descriptor matches
      in Map_values (new_Map (map (\<lambda>s. (source s, s)) sources)))"

text \<open>
  \<open>body.question\<close>: a string, or anything else (absent, \<open>null\<close>, a number, ...), which
  the first check rejects whatever it is.
\<close>

datatype question_field = Str jsstring | NotString

text \<open>
  What the handler reads from outside: the parsed request body, the environment, the
  embedding provider, the vector store's \<open>query\<close> (whose \<open>matches\<close> may be
  \<open>undefined\<close>) and the answer generator, which is given a prompt that is a fixed text
  around the context and the question.
\<close>

record query_world =
  req_json :: "error + question_field"
  q_GOOGLE_API_KEY :: "jsstring option"
  q_PINECONE_API_KEY :: "jsstring option"
  q_PINECONE_INDEX :: "jsstring option"
  q_fetch :: fetch_fn
  index_query :: "vector \<Rightarrow> nat \<Rightarrow> error + ScoredRecord list option"
  generateContent :: "jsstring \<Rightarrow> jsstring \<Rightarrow> error + jsstring"

text \<open>
  The JSON the handler answers with: an error with its HTTP status, or
  \<open>{ success: true, answer, sources, retrievedChunks }\<close>.
\<close>

datatype reply =
    ErrorReply nat jsstring
  | AnswerReply jsstring "ChunkMetadata list" nat

text \<open>Step 1: the embedder of the route, built as at ingestion, with dimension 1024.\<close>

definition query_embedder :: "query_world \<Rightarrow> GeminiEmbeddings" where
  "query_embedder w =
     new_GeminiEmbeddings
       \<lparr> opt_apiKey = the (q_GOOGLE_API_KEY w),
         opt_modelName = Some (js ''gemini-embedding-001''),
         opt_outputDimensionality = Some 1024 \<rparr>"

definition POST :: "query_world \<Rightarrow> reply" where
  "POST w =
     (case req_json w of
        Inl e \<Rightarrow> ErrorReply 500 (message_of e)
      | Inr NotString \<Rightarrow> ErrorReply 400 (js ''A valid question string is required'')
      | Inr (Str question) \<Rightarrow>
          if question = [] \<or> trim question = []
          then ErrorReply 400 (js ''A valid question string is required'')
          else if length (trim question) > 2000
          then ErrorReply 400 (js ''Question is too long (max 2000 characters)'')
          else if unset (q_GOOGLE_API_KEY w)
          then ErrorReply 500 (js ''GOOGLE_API_KEY is not configured'')
          else if unset (q_PINECONE_API_KEY w) \<or> unset (q_PINECONE_INDEX w)
          then ErrorReply 500 (js ''Pinecone credentials are not configured'')
          else
            (let trimmedQuestion = trim question;
                 embedder = query_embedder w
             in case embedQuery embedder (q_fetch w) trimmedQuestion of
                  Inl e \<Rightarrow> ErrorReply 500 (message_of e)
                | Inr questionVector \<Rightarrow>
                    (case index_query w questionVector TOP_K of
                       Inl e \<Rightarrow> ErrorReply 500 (message_of e)
                     | Inr response_matches \<Rightarrow>
                         (let matches = (case response_matches of None \<Rightarrow> [] | Some ms \<Rightarrow> ms)
                          in if length matches = 0
                             then AnswerReply
                                    (js (''No relevant content was found in the uploaded documents. ''
                                         @ ''Please upload a PDF first.''))
                                    [] 0
                             else
                               (case generateContent w (build_context matches) trimmedQuestion of
                                  Inl e \<Rightarrow> ErrorReply 500 (message_of e)
                                | Inr answer \<Rightarrow>
                                    AnswerReply answer (uniqueSources matches)
                                      (length matches))))))"

section \<open>Concrete scenarios\<close>

text \<open>Concrete providers used to exercise the client.\<close>

definition default_embedder :: GeminiEmbeddings where
  "default_embedder =
     new_GeminiEmbeddings \<lparr> opt_apiKey = js ''k'', opt_modelName = None,
                            opt_outputDimensionality = None \<rparr>"

definition respond_with :: "vector \<Rightarrow> fetch_fn" where
  "respond_with vs req =
     Inr \<lparr> ok = True, status = 200,
           json = Inr \<lparr> embedding = Some \<lparr> values = vs \<rparr>, error = None \<rparr> \<rparr>"

text \<open>
  Three ways the upstream call goes wrong without a vector ever being parsed: the
  request is rejected, a gateway answers 502 with a body that is not JSON, and the
  provider answers 429 with an error payload.
\<close>

definition network_down :: fetch_fn where
  "network_down req = Inl (Error (js ''fetch failed''))"

definition bad_gateway :: fetch_fn where
  "bad_gateway req =
     Inr \<lparr> ok = False, status = 502, json = Inl (Error (js ''Unexpected token <'')) \<rparr>"

definition quota_exceeded :: fetch_fn where
  "quota_exceeded req =
     Inr \<lparr> ok = False, status = 429,
           json = Inr \<lparr> embedding = None,
                        error = Some \<lparr> code = 429, message = js ''Quota exceeded'',
                                       status_name = js ''RESOURCE_EXHAUSTED'' \<rparr> \<rparr> \<rparr>"


text \<open>
  Three matches in descending similarity order, two from \<open>a.pdf\<close> and one from
  \<open>b.pdf\<close>, with metadata as ingestion writes it.
\<close>

definition stored :: "jsstring \<Rightarrow> nat \<Rightarrow> metadata" where
  "stored name k =
     rec_metadata (build_records name 9 (js ''2026-02-17T10:00:00.000Z'') 0
                     (replicate 9 (js ''Leave policy: 20 days annual leave.''))
                     (replicate 9 [1 / 2]) ! k)"

definition three_matches :: "ScoredRecord list" where
  "three_matches =
     [\<lparr> match_id = js ''a_pdf-chunk-0'', score = 9 / 10,
        match_metadata = Some (stored (js ''a.pdf'') 0) \<rparr>,
      \<lparr> match_id = js ''a_pdf-chunk-5'', score = 8 / 10,
        match_metadata = Some (stored (js ''a.pdf'') 5) \<rparr>,
      \<lparr> match_id = js ''b_pdf-chunk-1'', score = 7 / 10,
        match_metadata = Some (stored (js ''b.pdf'') 1) \<rparr>]"


text \<open>Two requests to the query route: the store finds nothing, or the three matches.\<close>

definition no_matches_world :: query_world where
  "no_matches_world =
     \<lparr> req_json = Inr (Str (js '' How many vacation days do I get? '')),
       q_GOOGLE_API_KEY = Some (js ''g''),
       q_PINECONE_API_KEY = Some (js ''p''),
       q_PINECONE_INDEX = Some (js ''emp-rag''),
       q_fetch = respond_with [1 / 2],
       index_query = (\<lambda>v k. Inr (Some [])),
       generateContent = (\<lambda>c q. Inr (js ''answer'')) \<rparr>"

definition three_matches_world :: query_world where
  "three_matches_world = no_matches_world \<lparr> index_query := (\<lambda>v k. Inr (Some three_matches)) \<rparr>"


text \<open>
  A folder with three PDFs. \<open>broken.pdf\<close> cannot be parsed; \<open>policy.pdf\<close> is new and
  splits into two chunks and a blank part; \<open>old.pdf\<close> is recorded in the tracker with
  its present size and modification time. In \<open>empty_vector_world\<close> the provider answers
  the request for chunk 1 with an empty vector.
\<close>

definition demo_world :: world where
  "demo_world =
     \<lparr> GOOGLE_API_KEY = Some (js ''g''),
       PINECONE_API_KEY = Some (js ''p''),
       PINECONE_INDEX = Some (js ''emp-rag''),
       pdfs_dir_exists = True,
       pdf_names = [js ''broken.pdf'', js ''policy.pdf'', js ''old.pdf''],
       tracker_file = Some [js ''old.pdf'' \<mapsto>
         \<lparr> filename = js ''old.pdf'', file_size = 10, lastModified = 5,
           ingestedAt = js ''2026-01-01T00:00:00.000Z'', chunkCount = 3, pageCount = 1 \<rparr>],
       statSync_scan = (\<lambda>name. Inr \<lparr> stat_size = 10, mtimeMs = 5 \<rparr>),
       readFileSync = (\<lambda>name. if name = js ''broken.pdf'' then Inr [7] else Inr [8]),
       statSync = (\<lambda>name. Inr \<lparr> stat_size = 10, mtimeMs = 5 \<rparr>),
       getText = (\<lambda>buffer. if buffer = [7] then Inl (Error (js ''Invalid PDF structure''))
                            else Inr (js ''Leave policy: 20 days annual leave.'', 3)),
       splitText = (\<lambda>rawText. Inr [js ''Leave policy:'', js '' '', js ''20 days annual leave.'']),
       toISOString_now = (\<lambda>name. js ''2026-02-17T10:00:00.000Z''),
       provider = (\<lambda>name k. respond_with [1 / 2]),
       upsert = (\<lambda>name i records. None),
       writeFileSync = (\<lambda>name data. None) \<rparr>"

definition empty_vector_world :: world where
  "empty_vector_world =
     demo_world \<lparr> provider := (\<lambda>name k. if k = 1 then respond_with [] else respond_with [1 / 2]) \<rparr>"


text \<open>The same folder when \<open>policy.pdf\<close> splits into 21 chunks.\<close>

definition long_world :: world where
  "long_world = demo_world \<lparr> splitText := (\<lambda>rawText. Inr (replicate 21 (js ''Leave policy''))) \<rparr>"

section \<open>Properties of the embedding client\<close>

lemma embedQuery_transport_failure:
  "fetch (embed_request this text) = Inl e \<Longrightarrow> embedQuery this fetch text = Inl e"
  by (simp add: embedQuery_def)

lemma embedQuery_unparsable_body:
  "fetch (embed_request this text) = Inr res \<Longrightarrow> json res = Inl e \<Longrightarrow>
     embedQuery this fetch text = Inl e"
  by (simp add: embedQuery_def)

lemma embedQuery_success_cases:
  assumes "embedQuery this fetch text = Inr v"
  obtains res data emb where
    "fetch (embed_request this text) = Inr res" "json res = Inr data" "ok res"
    "error data = None" "embedding data = Some emb" "values emb = v" "v \<noteq> []"
  using assms
  by (auto simp: embedQuery_def split: sum.splits if_splits option.splits)

text \<open>
  C6. Whatever the upstream call does, \<open>embedQuery\<close> throws exactly when no response
  arrives (\<open>fetch\<close> rejects), or the HTTP status is not a success, or the body cannot be
  parsed, or it carries an \<open>error\<close> member, or the vector is absent or has length zero.
  In every other case it returns the vector of the provider's response. The empty
  vector is never returned.
\<close>

theorem embedQuery_fails_exactly_when:
  "((\<exists>e. embedQuery this fetch text = Inl e) \<longleftrightarrow>
      (case fetch (embed_request this text) of
         Inl e \<Rightarrow> True
       | Inr res \<Rightarrow>
           \<not> ok res
           \<or> (case json res of
                 Inl e \<Rightarrow> True
               | Inr data \<Rightarrow>
                   error data \<noteq> None
                   \<or> (case embedding data of None \<Rightarrow> True | Some emb \<Rightarrow> values emb = []))))
   \<and> ((\<exists>e. embedQuery this fetch text = Inl e)
        \<or> (\<exists>res data emb.
              fetch (embed_request this text) = Inr res \<and> ok res \<and> json res = Inr data
              \<and> error data = None \<and> embedding data = Some emb \<and> values emb \<noteq> []
              \<and> embedQuery this fetch text = Inr (values emb)))
   \<and> embedQuery this fetch text \<noteq> Inr []"
  by (auto simp: embedQuery_def split: sum.splits option.splits)

theorem embedQuery_fails_exactly_when_witness:
  "embedQuery default_embedder (respond_with [1 / 2, 1 / 4]) (js ''leave'') = Inr [1 / 2, 1 / 4]
   \<and> (\<exists>e. embedQuery default_embedder (respond_with []) (js ''leave'') = Inl e)
   \<and> (\<exists>e. embedQuery default_embedder network_down (js ''leave'') = Inl e)
   \<and> (\<exists>e. embedQuery default_embedder bad_gateway (js ''leave'') = Inl e)
   \<and> (\<exists>e. embedQuery default_embedder quota_exceeded (js ''leave'') = Inl e)"
  using embedQuery_fails_exactly_when [of default_embedder "respond_with [1 / 2, 1 / 4]" "js ''leave''"]
    embedQuery_fails_exactly_when [of default_embedder "respond_with []" "js ''leave''"]
    embedQuery_fails_exactly_when [of default_embedder network_down "js ''leave''"]
    embedQuery_fails_exactly_when [of default_embedder bad_gateway "js ''leave''"]
    embedQuery_fails_exactly_when [of default_embedder quota_exceeded "js ''leave''"]
  by (auto simp: respond_with_def network_down_def bad_gateway_def quota_exceeded_def)

text \<open>
  C7 as stated fails: the client never compares the length of the vector with the
  dimension it asked for. A provider that answers a request for 1024 numbers with a
  single number gets that single number returned.
\<close>

theorem embedQuery_length_counterexample:
  "outputDimensionality default_embedder = 1024
   \<and> embedQuery default_embedder (respond_with [1 / 2]) (js ''leave'') = Inr [1 / 2]
   \<and> length [1 / 2 :: real] \<noteq> outputDimensionality default_embedder"
  by (simp add: embedQuery_def respond_with_def default_embedder_def new_GeminiEmbeddings_def)

text \<open>
  C7, amended. The dimension given to the constructor (1024 when none is given) is
  sent to the provider as \<open>outputDimensionality\<close>; when \<open>embedQuery\<close> succeeds, what
  it returns is the vector of the provider's response, unchanged, and that vector has
  at least one component. Its length is the configured dimension exactly when the
  provider's vector has that length.
\<close>

theorem embedQuery_returns_provider_vector:
  assumes "embedQuery (new_GeminiEmbeddings options) fetch text = Inr v"
  shows "outputDimensionality (new_GeminiEmbeddings options)
           = (case opt_outputDimensionality options of None \<Rightarrow> 1024 | Some d \<Rightarrow> d)
         \<and> body_outputDimensionality (embed_request (new_GeminiEmbeddings options) text)
           = outputDimensionality (new_GeminiEmbeddings options)
         \<and> (\<exists>res data emb.
               fetch (embed_request (new_GeminiEmbeddings options) text) = Inr res
               \<and> json res = Inr data \<and> embedding data = Some emb \<and> values emb = v)
         \<and> 0 < length v"
proof -
  from assms obtain res data emb where
    "fetch (embed_request (new_GeminiEmbeddings options) text) = Inr res"
    "json res = Inr data" "embedding data = Some emb" "values emb = v" "v \<noteq> []"
    by (rule embedQuery_success_cases)
  then show ?thesis
    by (auto simp: new_GeminiEmbeddings_def embed_request_def)
qed

theorem embedQuery_returns_provider_vector_witness:
  "embedQuery default_embedder (respond_with [1 / 2]) (js ''leave'') = Inr [1 / 2]
   \<and> outputDimensionality default_embedder = 1024
   \<and> body_outputDimensionality (embed_request default_embedder (js ''leave'')) = 1024"
proof -
  have a: "embedQuery (new_GeminiEmbeddings \<lparr> opt_apiKey = js ''k'', opt_modelName = None,
                          opt_outputDimensionality = None \<rparr>)
             (respond_with [1 / 2]) (js ''leave'') = Inr [1 / 2]"
    by (simp add: embedQuery_def respond_with_def)
  from embedQuery_returns_provider_vector [OF a] a
  show ?thesis by (simp add: default_embedder_def)
qed

section \<open>Properties of ingestion\<close>

subsection \<open>Vector identifiers\<close>

lemma trim_Nil [simp]: "trim [] = []"
  by (simp add: trim_def)

lemma unat_digit: "d < 10 \<Longrightarrow> unat (digit d) = 48 + d"
  unfolding digit_def by (rule of_nat_inverse [OF refl]) simp

lemma digit_not_hyphen: "d < 10 \<Longrightarrow> digit d \<noteq> 0x2D"
proof
  assume "d < 10" and "digit d = 0x2D"
  then have "unat (0x2D :: 16 word) = 48 + d"
    using unat_digit [of d] by simp
  then show False by simp
qed

lemma digit_inj:
  assumes "d < 10" and "d' < 10" and "digit d = digit d'"
  shows "d = d'"
proof -
  from assms(3) have "unat (digit d) = unat (digit d')" by (rule arg_cong)
  then have "48 + d = 48 + d'"
    unfolding unat_digit [OF assms(1)] unat_digit [OF assms(2)] .
  then show ?thesis by (rule add_left_imp_eq)
qed

lemma number_toString_nonempty: "number_toString n \<noteq> []"
  by (subst number_toString.simps) simp

lemma number_toString_no_hyphen: "0x2D \<notin> set (number_toString n)"
proof (induction n rule: number_toString.induct)
  case (1 n)
  show ?case
  proof (cases "n < 10")
    case True
    then show ?thesis
      using digit_not_hyphen [of n] by (subst number_toString.simps) auto
  next
    case False
    then show ?thesis
      using "1" digit_not_hyphen [of "n mod 10"] by (subst number_toString.simps) auto
  qed
qed

lemma number_toString_inj: "number_toString m = number_toString n \<Longrightarrow> m = n"
proof (induction m arbitrary: n rule: number_toString.induct)
  case (1 m)
  show ?case
  proof (cases "m < 10")
    case m: True
    show ?thesis
    proof (cases "n < 10")
      case True
      with m "1.prems" show ?thesis
        by (simp add: number_toString.simps [of m] number_toString.simps [of n] digit_inj)
    next
      case False
      with m "1.prems" show ?thesis
        using number_toString_nonempty [of "n div 10"]
        by (simp add: number_toString.simps [of m] number_toString.simps [of n])
    qed
  next
    case m: False
    show ?thesis
    proof (cases "n < 10")
      case True
      with m "1.prems" show ?thesis
        using number_toString_nonempty [of "m div 10"]
        by (simp add: number_toString.simps [of m] number_toString.simps [of n])
    next
      case False
      with m "1.prems" have a: "number_toString (m div 10) = number_toString (n div 10)"
        and b: "digit (m mod 10) = digit (n mod 10)"
        by (simp_all add: number_toString.simps [of m] number_toString.simps [of n])
      from "1.IH" [OF m a] have "m div 10 = n div 10" .
      moreover from b have "m mod 10 = n mod 10"
        by (intro digit_inj) simp_all
      ultimately show ?thesis
        by (metis div_mult_mod_eq)
    qed
  qed
qed

lemma split_at_last:
  assumes "xs @ s # ds = xs' @ s # ds'" and "s \<notin> set ds" and "s \<notin> set ds'"
  shows "xs = xs' \<and> ds = ds'"
proof -
  have tail: "takeWhile (\<lambda>x. x \<noteq> s) (rev (ys @ s # zs)) = rev zs" if "s \<notin> set zs" for ys zs
  proof -
    have "takeWhile (\<lambda>x. x \<noteq> s) (rev zs @ s # rev ys)
            = rev zs @ takeWhile (\<lambda>x. x \<noteq> s) (s # rev ys)"
      by (rule takeWhile_append2) (use that in auto)
    then show ?thesis by simp
  qed
  have "takeWhile (\<lambda>x. x \<noteq> s) (rev (xs @ s # ds)) = rev ds"
    using assms(2) by (rule tail)
  moreover have "takeWhile (\<lambda>x. x \<noteq> s) (rev (xs' @ s # ds')) = rev ds'"
    using assms(3) by (rule tail)
  ultimately have "ds = ds'"
    using assms(1) by (metis rev_is_rev_conv)
  with assms(1) show ?thesis by simp
qed

lemma js_chunk: "js ''-chunk-'' = js ''-chunk'' @ [0x2D]"
  by (simp add: js_def)

lemma vector_id_eq_iff:
  "a @ js ''-chunk-'' @ number_toString m = b @ js ''-chunk-'' @ number_toString n
     \<longleftrightarrow> a = b \<and> m = n"
proof
  assume "a @ js ''-chunk-'' @ number_toString m = b @ js ''-chunk-'' @ number_toString n"
  then have "(a @ js ''-chunk'') @ 0x2D # number_toString m
               = (b @ js ''-chunk'') @ 0x2D # number_toString n"
    by (simp add: js_chunk)
  from split_at_last [OF this number_toString_no_hyphen number_toString_no_hyphen]
  show "a = b \<and> m = n"
    by (auto dest: number_toString_inj)
qed simp

lemma build_records_nth:
  "j < length batch \<Longrightarrow>
     build_records name tot stamp i batch vectors ! j =
       \<lparr> rec_id = sanitize name @ js ''-chunk-'' @ number_toString (i + j),
         rec_values = vectors ! j,
         rec_metadata =
           [(js ''text'', MString (batch ! j)),
            (js ''source'', MString name),
            (js ''chunkIndex'', MNumber (i + j)),
            (js ''totalChunks'', MNumber tot),
            (js ''ingestedAt'', MString stamp)] \<rparr>"
  by (simp add: build_records_def nth_enumerate_eq)

lemma length_build_records [simp]:
  "length (build_records name tot stamp i batch vectors) = length batch"
  by (simp add: build_records_def)

lemma sanitize_safe: "c \<in> set (sanitize name) \<Longrightarrow> id_safe c"
  by (auto simp: sanitize_def id_safe_def)

text \<open>
  C1 as stated fails in its collision-freedom part: \<open>sanitize\<close> is not injective, so two
  different file names that differ only in characters outside the safe class get the
  same identifiers. \<open>a b.pdf\<close> and \<open>a_b.pdf\<close> are two different files whose chunk 0
  has one and the same identifier.
\<close>

theorem vector_id_collision_counterexample:
  "js ''a b.pdf'' \<noteq> js ''a_b.pdf''
   \<and> rec_id (build_records (js ''a b.pdf'') 1 [] 0 [js ''x''] [ [1] ] ! 0)
     = rec_id (build_records (js ''a_b.pdf'') 1 [] 0 [js ''x''] [ [1] ] ! 0)"
  by (simp add: build_records_def sanitize_def id_safe_def js_def)

text \<open>
  C1, amended. The record built for chunk \<open>i + j\<close> of the file \<open>name\<close> has the
  identifier \<open>sanitize name + "-chunk-" + (i + j)\<close>, where \<open>sanitize\<close> replaces every code
  unit outside \<open>[a-zA-Z0-9-_]\<close> by an underscore. The identifier depends on nothing but
  the file name and the chunk index (not on the text, the vector, the chunk count or
  the time), so re-ingesting with the same chunking gives the same identifiers. Two
  records have the same identifier exactly when their chunk indices are equal and
  their file names have the same sanitized form; in particular two chunks of one file
  never share an identifier.
\<close>

theorem vector_id_of_name_and_index:
  assumes "j < length batch" and "j' < length batch'"
  shows "rec_id (build_records name tot stamp i batch vectors ! j)
           = sanitize name @ js ''-chunk-'' @ number_toString (i + j)
         \<and> sanitize name = map (\<lambda>c. if id_safe c then c else 0x5F) name
         \<and> (rec_id (build_records name tot stamp i batch vectors ! j)
              = rec_id (build_records name' tot' stamp' i' batch' vectors' ! j')
            \<longleftrightarrow> sanitize name = sanitize name' \<and> i + j = i' + j')"
  using assms by (simp add: build_records_nth vector_id_eq_iff sanitize_def)

theorem vector_id_of_name_and_index_witness:
  "rec_id (build_records (js ''a.pdf'') 2 [] 0 [js ''x'', js ''y''] [ [1], [2] ] ! 1)
     = js ''a_pdf-chunk-1''
   \<and> rec_id (build_records (js ''a.pdf'') 2 [] 0 [js ''x'', js ''y''] [ [1], [2] ] ! 1)
     \<noteq> rec_id (build_records (js ''a.pdf'') 2 [] 0 [js ''x'', js ''y''] [ [1], [2] ] ! 0)"
  using vector_id_of_name_and_index [of 1 "[js ''x'', js ''y'']" 0 "[js ''x'', js ''y'']"
          "js ''a.pdf''" 2 "[]" 0 "[ [1], [2] ]" "js ''a.pdf''" 2 "[]" 0 "[ [1], [2] ]"]
  by (simp add: build_records_def sanitize_def id_safe_def js_def number_toString.simps digit_def)


subsection \<open>Batches\<close>

lemma batches_of_Nil [simp]: "batches_of n [] = []"
  by (simp add: batches_of.simps)

lemma batches_of_step:
  "0 < n \<Longrightarrow> xs \<noteq> [] \<Longrightarrow> batches_of n xs = take n xs # batches_of n (drop n xs)"
  by (subst batches_of.simps) simp

lemma concat_batches_of: "0 < n \<Longrightarrow> concat (batches_of n xs) = xs"
proof (induction n xs rule: batches_of.induct)
  case (1 n xs)
  then show ?case by (cases "xs = []") (simp_all add: batches_of_step)
qed

lemma batches_of_lengths: "b \<in> set (batches_of n xs) \<Longrightarrow> 0 < length b \<and> length b \<le> n"
proof (induction n xs rule: batches_of.induct)
  case (1 n xs)
  show ?case
  proof (cases "n = 0 \<or> xs = []")
    case True
    with "1.prems" show ?thesis by (auto simp: batches_of.simps)
  next
    case False
    with "1.prems" "1.IH" show ?thesis by (auto simp: batches_of_step)
  qed
qed

lemma batches_of_full: "b \<in> set (butlast (batches_of n xs)) \<Longrightarrow> length b = n"
proof (induction n xs rule: batches_of.induct)
  case (1 n xs)
  show ?case
  proof (cases "n = 0 \<or> xs = []")
    case True
    with "1.prems" show ?thesis by (auto simp: batches_of.simps)
  next
    case False
    show ?thesis
    proof (cases "drop n xs = []")
      case True
      with False "1.prems" show ?thesis by (simp add: batches_of_step)
    next
      case d: False
      then have "batches_of n (drop n xs) \<noteq> []"
        using False by (simp add: batches_of_step)
      with False "1.prems" have "b = take n xs \<or> b \<in> set (butlast (batches_of n (drop n xs)))"
        by (simp add: batches_of_step)
      then show ?thesis
      proof
        assume "b = take n xs"
        with d show ?thesis by simp
      next
        assume "b \<in> set (butlast (batches_of n (drop n xs)))"
        with False "1.IH" show ?thesis by simp
      qed
    qed
  qed
qed

subsection \<open>Embedding a batch\<close>

lemma embedDocuments_Inr:
  "embedDocuments e f k docs = Inr vs \<Longrightarrow>
     length vs = length docs
     \<and> (\<forall>j<length docs. embedQuery e (f (k + j)) (docs ! j) = Inr (vs ! j))"
proof (induction docs arbitrary: k vs)
  case Nil
  then show ?case by simp
next
  case (Cons doc docs)
  from Cons.prems obtain v vs' where v: "embedQuery e (f k) doc = Inr v"
    and vs': "embedDocuments e f (Suc k) docs = Inr vs'" and vs: "vs = v # vs'"
    by (auto split: sum.splits)
  from Cons.IH [OF vs'] have len: "length vs' = length docs"
    and all: "\<forall>j<length docs. embedQuery e (f (Suc k + j)) (docs ! j) = Inr (vs' ! j)"
    by simp_all
  have "embedQuery e (f (k + j)) ((doc # docs) ! j) = Inr (vs ! j)" if "j < length (doc # docs)" for j
    using that v all vs by (cases j) auto
  with len vs show ?case by simp
qed

lemma embed_attempts_Inr:
  "embedDocuments e f k docs = Inr vs \<Longrightarrow> embed_attempts e f k docs = docs"
  by (induction docs arbitrary: k vs) (auto split: sum.splits)

lemma embedDocuments_all_ok:
  "\<forall>j<length docs. \<exists>v. embedQuery e (f (k + j)) (docs ! j) = Inr v \<Longrightarrow>
     \<exists>vs. embedDocuments e f k docs = Inr vs"
proof (induction docs arbitrary: k)
  case Nil
  show ?case by simp
next
  case (Cons doc docs)
  from Cons.prems have "\<exists>v. embedQuery e (f (k + 0)) ((doc # docs) ! 0) = Inr v"
    by blast
  then obtain v where v: "embedQuery e (f k) doc = Inr v" by auto
  have "\<forall>j<length docs. \<exists>v. embedQuery e (f (Suc k + j)) (docs ! j) = Inr v"
  proof (intro allI impI)
    fix j assume "j < length docs"
    then have "Suc j < length (doc # docs)" by simp
    with Cons.prems have "\<exists>v. embedQuery e (f (k + Suc j)) ((doc # docs) ! Suc j) = Inr v"
      by blast
    then show "\<exists>v. embedQuery e (f (Suc k + j)) (docs ! j) = Inr v" by simp
  qed
  from Cons.IH [OF this] obtain vs where "embedDocuments e f (Suc k) docs = Inr vs" ..
  with v show ?case by simp
qed

subsection \<open>The batch loop\<close>

lemma take_upt_min: "take m [i..<n] = [i..<min (i + m) n]"
  by (cases "i + m \<le> n") simp_all

lemma build_records_chunk_records:
  assumes "embedDocuments e (\<lambda>k. provider w name (i + k)) 0 (take m (drop i chunks)) = Inr vectors"
  shows "build_records name (length chunks) stamp i (take m (drop i chunks)) vectors
           = map (chunk_record w e name chunks stamp) [i..<min (i + m) (length chunks)]"
proof (rule nth_equalityI)
  show "length (build_records name (length chunks) stamp i (take m (drop i chunks)) vectors)
          = length (map (chunk_record w e name chunks stamp) [i..<min (i + m) (length chunks)])"
    by (auto simp: min_def)
next
  fix j assume "j < length (build_records name (length chunks) stamp i (take m (drop i chunks)) vectors)"
  then have j: "j < length (take m (drop i chunks))" by simp
  then have jm: "j < m" and jn: "i + j < length chunks" by auto
  from embedDocuments_Inr [OF assms] j
  have "embedQuery e (provider w name (i + j)) (take m (drop i chunks) ! j) = Inr (vectors ! j)"
    by simp
  with jm jn have "embedded_vector w e name chunks (i + j) = vectors ! j"
    by (simp add: embedded_vector_def)
  with j jm jn
  show "build_records name (length chunks) stamp i (take m (drop i chunks)) vectors ! j
          = map (chunk_record w e name chunks stamp) [i..<min (i + m) (length chunks)] ! j"
    by (simp add: build_records_nth chunk_record_def)
qed

lemma upsert_batches_done:
  "\<not> i < length chunks \<Longrightarrow>
     upsert_batches w e name chunks stamp i up
       = \<lparr> b_result = Inr up, b_embedded = [], b_upserted = [] \<rparr>"
  by (subst upsert_batches.simps) simp

lemma upsert_batches_unfold:
  assumes "i < length chunks"
  shows "upsert_batches w e name chunks stamp i up =
     (case embedDocuments e (\<lambda>k. provider w name (i + k)) 0 (take BATCH_SIZE (drop i chunks)) of
        Inl err \<Rightarrow>
          \<lparr> b_result = Inl err,
            b_embedded = embed_attempts e (\<lambda>k. provider w name (i + k)) 0
                           (take BATCH_SIZE (drop i chunks)),
            b_upserted = [] \<rparr>
      | Inr vectors \<Rightarrow>
          (case upsert w name i
                  (build_records name (length chunks) stamp i (take BATCH_SIZE (drop i chunks))
                     vectors) of
             Some err \<Rightarrow>
               \<lparr> b_result = Inl err,
                 b_embedded = take BATCH_SIZE (drop i chunks),
                 b_upserted = [build_records name (length chunks) stamp i
                                 (take BATCH_SIZE (drop i chunks)) vectors] \<rparr>
           | None \<Rightarrow>
               \<lparr> b_result = b_result (upsert_batches w e name chunks stamp (i + BATCH_SIZE)
                                         (up + length (take BATCH_SIZE (drop i chunks)))),
                 b_embedded = take BATCH_SIZE (drop i chunks)
                   @ b_embedded (upsert_batches w e name chunks stamp (i + BATCH_SIZE)
                                   (up + length (take BATCH_SIZE (drop i chunks)))),
                 b_upserted = build_records name (length chunks) stamp i
                                (take BATCH_SIZE (drop i chunks)) vectors
                   # b_upserted (upsert_batches w e name chunks stamp (i + BATCH_SIZE)
                                   (up + length (take BATCH_SIZE (drop i chunks)))) \<rparr>))"
proof (cases "embedDocuments e (\<lambda>k. provider w name (i + k)) 0 (take BATCH_SIZE (drop i chunks))")
  case (Inl err)
  with assms show ?thesis
    by (subst upsert_batches.simps) (simp add: Let_def)
next
  case (Inr vectors)
  with assms embed_attempts_Inr [OF Inr] show ?thesis
    by (subst upsert_batches.simps) (simp add: Let_def split: option.split)
qed

lemma upsert_batches_Inr_step:
  assumes "i < length chunks"
    and "b_result (upsert_batches w e name chunks stamp i up) = Inr n"
  obtains vectors where
    "embedDocuments e (\<lambda>k. provider w name (i + k)) 0 (take BATCH_SIZE (drop i chunks)) = Inr vectors"
    "upsert w name i
       (build_records name (length chunks) stamp i (take BATCH_SIZE (drop i chunks)) vectors) = None"
    "b_result (upsert_batches w e name chunks stamp (i + BATCH_SIZE)
                 (up + length (take BATCH_SIZE (drop i chunks)))) = Inr n"
    "b_embedded (upsert_batches w e name chunks stamp i up)
       = take BATCH_SIZE (drop i chunks)
         @ b_embedded (upsert_batches w e name chunks stamp (i + BATCH_SIZE)
                         (up + length (take BATCH_SIZE (drop i chunks))))"
    "b_upserted (upsert_batches w e name chunks stamp i up)
       = build_records name (length chunks) stamp i (take BATCH_SIZE (drop i chunks)) vectors
         # b_upserted (upsert_batches w e name chunks stamp (i + BATCH_SIZE)
                         (up + length (take BATCH_SIZE (drop i chunks))))"
proof (cases "embedDocuments e (\<lambda>k. provider w name (i + k)) 0 (take BATCH_SIZE (drop i chunks))")
  case (Inl err)
  with assms(2) show ?thesis
    by (simp add: upsert_batches_unfold [OF assms(1)])
next
  case (Inr vectors)
  show ?thesis
  proof (cases "upsert w name i
                  (build_records name (length chunks) stamp i (take BATCH_SIZE (drop i chunks))
                     vectors)")
    case (Some err)
    with Inr assms(2) show ?thesis
      by (simp add: upsert_batches_unfold [OF assms(1)])
  next
    case None
    show ?thesis
      by (rule that [OF Inr None])
         (use Inr None assms(2) in \<open>simp_all add: upsert_batches_unfold [OF assms(1)]\<close>)
  qed
qed

lemma upsert_batches_Inr:
  assumes "b_result (upsert_batches w e name chunks stamp i up) = Inr n"
  shows "n = up + (length chunks - i)
         \<and> b_embedded (upsert_batches w e name chunks stamp i up) = drop i chunks
         \<and> b_upserted (upsert_batches w e name chunks stamp i up)
             = batches_of BATCH_SIZE (map (chunk_record w e name chunks stamp) [i..<length chunks])
         \<and> (\<forall>k. i \<le> k \<and> k < length chunks \<longrightarrow>
               (\<exists>v. embedQuery e (provider w name k) (chunks ! k) = Inr v))"
  using assms
proof (induction "length chunks - i" arbitrary: i up rule: less_induct)
  case less
  show ?case
  proof (cases "i < length chunks")
    case False
    with less.prems show ?thesis
      by (auto simp: upsert_batches_done)
  next
    case True
    let ?batch = "take BATCH_SIZE (drop i chunks)"
    let ?rest = "upsert_batches w e name chunks stamp (i + BATCH_SIZE) (up + length ?batch)"
    let ?R = "chunk_record w e name chunks stamp"
    from True less.prems obtain vectors where
      emb: "embedDocuments e (\<lambda>k. provider w name (i + k)) 0 ?batch = Inr vectors"
      and rest: "b_result ?rest = Inr n"
      and calls: "b_embedded (upsert_batches w e name chunks stamp i up) = ?batch @ b_embedded ?rest"
      and ups: "b_upserted (upsert_batches w e name chunks stamp i up)
                  = build_records name (length chunks) stamp i ?batch vectors # b_upserted ?rest"
      by (rule upsert_batches_Inr_step)
    from True have "length chunks - (i + BATCH_SIZE) < length chunks - i"
      by (simp add: BATCH_SIZE_def)
    from less.hyps [OF this rest]
    have n: "n = up + length ?batch + (length chunks - (i + BATCH_SIZE))"
      and calls': "b_embedded ?rest = drop (i + BATCH_SIZE) chunks"
      and ups': "b_upserted ?rest = batches_of BATCH_SIZE (map ?R [i + BATCH_SIZE..<length chunks])"
      and ok': "\<forall>k. i + BATCH_SIZE \<le> k \<and> k < length chunks \<longrightarrow>
                 (\<exists>v. embedQuery e (provider w name k) (chunks ! k) = Inr v)"
      by simp_all
    have 1: "n = up + (length chunks - i)"
      using n by (simp add: min_def)
    have "?batch @ drop BATCH_SIZE (drop i chunks) = drop i chunks"
      by (rule append_take_drop_id)
    with calls calls'
    have 2: "b_embedded (upsert_batches w e name chunks stamp i up) = drop i chunks"
      by (simp add: add.commute)
    have "batches_of BATCH_SIZE (map ?R [i..<length chunks])
            = map ?R [i..<min (i + BATCH_SIZE) (length chunks)]
              # batches_of BATCH_SIZE (map ?R [i + BATCH_SIZE..<length chunks])"
      using True
      by (subst batches_of_step)
         (auto simp: BATCH_SIZE_def take_map drop_map take_upt_min add.commute)
    with ups ups' build_records_chunk_records [OF emb]
    have 3: "b_upserted (upsert_batches w e name chunks stamp i up)
               = batches_of BATCH_SIZE (map ?R [i..<length chunks])"
      by simp
    have 4: "\<exists>v. embedQuery e (provider w name k) (chunks ! k) = Inr v"
      if k: "i \<le> k \<and> k < length chunks" for k
    proof (cases "k < i + BATCH_SIZE")
      case False
      with k ok' show ?thesis by simp
    next
      case kb: True
      with k have "k - i < length ?batch" by auto
      with embedDocuments_Inr [OF emb]
      have "embedQuery e (provider w name (i + (0 + (k - i)))) (?batch ! (k - i))
              = Inr (vectors ! (k - i))"
        by blast
      moreover from k kb have "k - i < BATCH_SIZE" and "i + (k - i) = k" by arith+
      then have "?batch ! (k - i) = chunks ! k" using k by simp
      ultimately show ?thesis using k by simp
    qed
    from 1 2 3 4 show ?thesis by blast
  qed
qed

lemma upsert_batches_upsert_ok:
  assumes "b_result (upsert_batches w e name chunks stamp i up) = Inr n"
  shows "\<forall>b<length (b_upserted (upsert_batches w e name chunks stamp i up)).
           upsert w name (i + b * BATCH_SIZE)
             (b_upserted (upsert_batches w e name chunks stamp i up) ! b) = None"
  using assms
proof (induction "length chunks - i" arbitrary: i up rule: less_induct)
  case less
  show ?case
  proof (cases "i < length chunks")
    case False
    with less.prems show ?thesis
      by (simp add: upsert_batches_done)
  next
    case True
    let ?batch = "take BATCH_SIZE (drop i chunks)"
    let ?rest = "upsert_batches w e name chunks stamp (i + BATCH_SIZE) (up + length ?batch)"
    from True less.prems obtain vectors where
      rest: "b_result ?rest = Inr n"
      and store: "upsert w name i (build_records name (length chunks) stamp i ?batch vectors) = None"
      and ups: "b_upserted (upsert_batches w e name chunks stamp i up)
                  = build_records name (length chunks) stamp i ?batch vectors # b_upserted ?rest"
      by (rule upsert_batches_Inr_step)
    from True have "length chunks - (i + BATCH_SIZE) < length chunks - i"
      by (simp add: BATCH_SIZE_def)
    from less.hyps [OF this rest]
    have ih: "\<forall>b<length (b_upserted ?rest).
                upsert w name (i + BATCH_SIZE + b * BATCH_SIZE) (b_upserted ?rest ! b) = None" .
    show ?thesis
    proof (intro allI impI)
      fix b assume "b < length (b_upserted (upsert_batches w e name chunks stamp i up))"
      with ups ih store
      show "upsert w name (i + b * BATCH_SIZE)
              (b_upserted (upsert_batches w e name chunks stamp i up) ! b) = None"
        by (cases b) (simp_all add: add.assoc)
    qed
  qed
qed

lemma upsert_batches_sources:
  "rc \<in> set (concat (b_upserted (upsert_batches w e name chunks stamp i up))) \<Longrightarrow>
     map_of (rec_metadata rc) (js ''source'') = Some (MString name)"
proof (induction "length chunks - i" arbitrary: i up rule: less_induct)
  case less
  show ?case
  proof (cases "i < length chunks")
    case False
    with less.prems show ?thesis
      by (simp add: upsert_batches_done)
  next
    case True
    let ?batch = "take BATCH_SIZE (drop i chunks)"
    let ?rest = "upsert_batches w e name chunks stamp (i + BATCH_SIZE) (up + length ?batch)"
    from True have m: "length chunks - (i + BATCH_SIZE) < length chunks - i"
      by (simp add: BATCH_SIZE_def)
    have built: "map_of (rec_metadata rc) (js ''source'') = Some (MString name)"
      if "rc \<in> set (build_records name tot stamp i batch vectors)" for tot batch vectors
      using that by (auto simp: build_records_def js_def)
    from less.prems
    have "(\<exists>vectors. rc \<in> set (build_records name (length chunks) stamp i ?batch vectors))
          \<or> rc \<in> set (concat (b_upserted ?rest))"
      unfolding upsert_batches_unfold [OF True, of w e name stamp up]
      by (auto split: sum.splits option.splits)
    then show ?thesis
      using built less.hyps [OF m] by blast
  qed
qed


lemma upsert_batches_all_ok:
  assumes "\<forall>k<length chunks. \<exists>v. embedQuery e (provider w name k) (chunks ! k) = Inr v"
    and "\<forall>i records. upsert w name i records = None"
  shows "b_result (upsert_batches w e name chunks stamp i up) = Inr (up + (length chunks - i))"
proof (induction "length chunks - i" arbitrary: i up rule: less_induct)
  case less
  show ?case
  proof (cases "i < length chunks")
    case False
    then show ?thesis by (simp add: upsert_batches_done)
  next
    case True
    let ?batch = "take BATCH_SIZE (drop i chunks)"
    have "\<forall>j<length ?batch. \<exists>v. embedQuery e (provider w name (i + (0 + j))) (?batch ! j) = Inr v"
    proof (intro allI impI)
      fix j assume "j < length ?batch"
      then have j: "j < BATCH_SIZE" "i + j < length chunks" by auto
      with assms(1) have "\<exists>v. embedQuery e (provider w name (i + j)) (chunks ! (i + j)) = Inr v"
        by blast
      with j True
      show "\<exists>v. embedQuery e (provider w name (i + (0 + j))) (?batch ! j) = Inr v"
        by simp
    qed
    then obtain vectors
      where emb: "embedDocuments e (\<lambda>k. provider w name (i + k)) 0 ?batch = Inr vectors"
      using embedDocuments_all_ok [of ?batch e "\<lambda>k. provider w name (i + k)" 0] by blast
    from True have "length chunks - (i + BATCH_SIZE) < length chunks - i"
      by (simp add: BATCH_SIZE_def)
    from less.hyps [OF this, of "up + length ?batch"] True emb assms(2) show ?thesis
      by (simp add: upsert_batches_unfold min_def)
  qed
qed

subsection \<open>One document\<close>

lemma ingest_body_written:
  assumes "saved (ingest_body w e tracker name) \<noteq> []
           \<or> tracker_after (ingest_body w e tracker name) \<noteq> tracker"
  obtains buffer stats rawText pages parts n where
    "readFileSync w name = Inr buffer"
    "statSync w name = Inr stats"
    "getText w buffer = Inr (rawText, pages)"
    "splitText w rawText = Inr parts"
    "nonblank parts \<noteq> []"
    "b_result (upsert_batches w e name (nonblank parts) (toISOString_now w name) 0 0) = Inr n"
    "embedded (ingest_body w e tracker name)
       = b_embedded (upsert_batches w e name (nonblank parts) (toISOString_now w name) 0 0)"
    "upserted_batches (ingest_body w e tracker name)
       = b_upserted (upsert_batches w e name (nonblank parts) (toISOString_now w name) 0 0)"
    "tracker_after (ingest_body w e tracker name)
       = tracker(name \<mapsto> \<lparr> filename = name, file_size = stat_size stats,
                             lastModified = mtimeMs stats,
                             ingestedAt = toISOString_now w name,
                             chunkCount = n, pageCount = pages \<rparr>)"
    "saved (ingest_body w e tracker name) = [tracker_after (ingest_body w e tracker name)]"
proof (cases "readFileSync w name")
  case (Inl err)
  with assms show ?thesis by (simp add: ingest_body_def thrown_def)
next
  case buffer: (Inr buffer)
  show ?thesis
  proof (cases "statSync w name")
    case (Inl err)
    with assms buffer show ?thesis by (simp add: ingest_body_def thrown_def)
  next
    case stats: (Inr stats)
    show ?thesis
    proof (cases "getText w buffer")
      case (Inl err)
      with assms buffer stats show ?thesis by (simp add: ingest_body_def thrown_def)
    next
      case (Inr extracted)
      obtain rawText pages where extracted: "extracted = (rawText, pages)" by (cases extracted)
      with Inr have txt_ok: "getText w buffer = Inr (rawText, pages)" by simp
      show ?thesis
      proof (cases "rawText = [] \<or> length (trim rawText) = 0")
        case True
        with assms buffer stats txt_ok show ?thesis
          by (simp add: ingest_body_def skipped_def)
      next
        case nonempty: False
        show ?thesis
        proof (cases "splitText w rawText")
          case (Inl err)
          with assms buffer stats txt_ok nonempty show ?thesis
            by (simp add: ingest_body_def thrown_def)
        next
          case parts: (Inr parts)
          show ?thesis
          proof (cases "length (nonblank parts) = 0")
            case True
            with assms buffer stats txt_ok nonempty parts show ?thesis
              by (simp add: ingest_body_def skipped_def)
          next
            case chunks: False
            let ?b = "upsert_batches w e name (nonblank parts) (toISOString_now w name) 0 0"
            show ?thesis
            proof (cases "b_result ?b")
              case (Inl err)
              with assms buffer stats txt_ok nonempty parts chunks show ?thesis
                by (simp add: ingest_body_def Let_def)
            next
              case n: (Inr n)
              from chunks have "nonblank parts \<noteq> []" by simp
              from buffer stats txt_ok parts this n show ?thesis
                by (rule that)
                   (use buffer stats txt_ok nonempty parts chunks n in
                     \<open>simp_all add: ingest_body_def Let_def split: option.split\<close>)
            qed
          qed
        qed
      qed
    qed
  qed
qed

lemma ingest_body_frame:
  assumes "n \<noteq> name"
  shows "tracker_after (ingest_body w e tracker name) n = tracker n"
proof (cases "tracker_after (ingest_body w e tracker name) = tracker")
  case True
  then show ?thesis by simp
next
  case False
  then have "saved (ingest_body w e tracker name) \<noteq> []
             \<or> tracker_after (ingest_body w e tracker name) \<noteq> tracker"
    by simp
  then obtain buffer stats rawText pages parts k where
    "readFileSync w name = Inr buffer" "statSync w name = Inr stats"
    "getText w buffer = Inr (rawText, pages)" "splitText w rawText = Inr parts"
    "nonblank parts \<noteq> []"
    "b_result (upsert_batches w e name (nonblank parts) (toISOString_now w name) 0 0) = Inr k"
    "embedded (ingest_body w e tracker name)
       = b_embedded (upsert_batches w e name (nonblank parts) (toISOString_now w name) 0 0)"
    "upserted_batches (ingest_body w e tracker name)
       = b_upserted (upsert_batches w e name (nonblank parts) (toISOString_now w name) 0 0)"
    and "tracker_after (ingest_body w e tracker name)
       = tracker(name \<mapsto> \<lparr> filename = name, file_size = stat_size stats,
                             lastModified = mtimeMs stats,
                             ingestedAt = toISOString_now w name,
                             chunkCount = k, pageCount = pages \<rparr>)"
    and "saved (ingest_body w e tracker name) = [tracker_after (ingest_body w e tracker name)]"
    by (rule ingest_body_written)
  with assms show ?thesis by simp
qed

lemma ingest_body_Normal:
  "completion (ingest_body w e tracker name) = Normal \<Longrightarrow> saved (ingest_body w e tracker name) \<noteq> []"
  by (auto simp: ingest_body_def thrown_def skipped_def Let_def
           split: sum.splits prod.splits if_splits option.splits)

text \<open>
  Conversely, when every step succeeds the body completes normally: the document is
  ingested.
\<close>

lemma ingest_body_succeeds:
  assumes "readFileSync w name = Inr buffer" and "statSync w name = Inr stats"
    and "getText w buffer = Inr (rawText, pages)" and "trim rawText \<noteq> []"
    and "splitText w rawText = Inr parts" and "nonblank parts \<noteq> []"
    and "\<forall>k<length (nonblank parts).
           \<exists>v. embedQuery e (provider w name k) (nonblank parts ! k) = Inr v"
    and "\<forall>i records. upsert w name i records = None"
    and "\<forall>data. writeFileSync w name data = None"
  shows "completion (ingest_body w e tracker name) = Normal"
proof -
  from assms(4) have "rawText \<noteq> []" by auto
  moreover from upsert_batches_all_ok [OF assms(7,8)]
  have "b_result (upsert_batches w e name (nonblank parts) (toISOString_now w name) 0 0)
          = Inr (length (nonblank parts))"
    by simp
  ultimately show ?thesis
    using assms by (simp add: ingest_body_def Let_def)
qed

lemma ingest_one_fields [simp]:
  "completion (ingest_one w e tracker name) = completion (ingest_body w e tracker name)"
  "tracker_after (ingest_one w e tracker name) = tracker_after (ingest_body w e tracker name)"
  "embedded (ingest_one w e tracker name) = embedded (ingest_body w e tracker name)"
  "upserted_batches (ingest_one w e tracker name) = upserted_batches (ingest_body w e tracker name)"
  "saved (ingest_one w e tracker name) = saved (ingest_body w e tracker name)"
  by (simp_all add: ingest_one_def Let_def)


lemma nonblank_demo:
  "nonblank [js ''Leave policy:'', js '' '', js ''20 days annual leave.'']
     = [js ''Leave policy:'', js ''20 days annual leave.'']"
  by (simp add: nonblank_def trim_def is_white_space_def js_def)

lemma demo_embed: "embedQuery e (respond_with [1 / 2]) t = Inr [1 / 2]"
  by (simp add: embedQuery_def respond_with_def)

lemma demo_batches:
  "upsert_batches demo_world e (js ''policy.pdf'') [js ''Leave policy:'', js ''20 days annual leave.'']
     stamp 0 0
   = \<lparr> b_result = Inr 2,
       b_embedded = [js ''Leave policy:'', js ''20 days annual leave.''],
       b_upserted = [build_records (js ''policy.pdf'') 2 stamp 0
                       [js ''Leave policy:'', js ''20 days annual leave.''] [ [1 / 2], [1 / 2] ] ] \<rparr>"
  by (simp add: upsert_batches_unfold upsert_batches_done BATCH_SIZE_def demo_world_def demo_embed
      numeral_2_eq_2)

lemma demo_body:
  "ingest_body demo_world e Map.empty (js ''policy.pdf'')
   = \<lparr> completion = Normal,
       tracker_after = [js ''policy.pdf'' \<mapsto>
          \<lparr> filename = js ''policy.pdf'', file_size = 10, lastModified = 5,
            ingestedAt = js ''2026-02-17T10:00:00.000Z'', chunkCount = 2, pageCount = 3 \<rparr>],
       embedded = [js ''Leave policy:'', js ''20 days annual leave.''],
       upserted_batches = [build_records (js ''policy.pdf'') 2 (js ''2026-02-17T10:00:00.000Z'') 0
                       [js ''Leave policy:'', js ''20 days annual leave.''] [ [1 / 2], [1 / 2] ] ],
       saved = [ [js ''policy.pdf'' \<mapsto>
          \<lparr> filename = js ''policy.pdf'', file_size = 10, lastModified = 5,
            ingestedAt = js ''2026-02-17T10:00:00.000Z'', chunkCount = 2, pageCount = 3 \<rparr>] ],
       logged = [LogSuccess (js ''policy.pdf'') 2 3] \<rparr>"
proof -
  have a: "readFileSync demo_world (js ''policy.pdf'') = Inr [8]"
    by (simp add: demo_world_def js_def)
  have b: "getText demo_world [8] = Inr (js ''Leave policy: 20 days annual leave.'', 3)"
    by (simp add: demo_world_def)
  have c: "trim (js ''Leave policy: 20 days annual leave.'') \<noteq> []"
    by (simp add: trim_def is_white_space_def js_def)
  have d: "splitText demo_world t = Inr [js ''Leave policy:'', js '' '', js ''20 days annual leave.'']" for t
    by (simp add: demo_world_def)
  have f: "statSync demo_world n = Inr \<lparr> stat_size = 10, mtimeMs = 5 \<rparr>"
     "toISOString_now demo_world n = js ''2026-02-17T10:00:00.000Z''"
     "writeFileSync demo_world n t = None" for n t
    by (simp_all add: demo_world_def)
  from c have c': "js ''Leave policy: 20 days annual leave.'' \<noteq> []" by auto
  show ?thesis
    by (simp add: ingest_body_def a b c c' d f nonblank_demo demo_batches Let_def)
qed


lemma chunk_record_ids_distinct:
  "distinct (map rec_id (map (chunk_record w e name chunks stamp) [0..<n]))"
proof -
  have "inj_on (\<lambda>k. sanitize name @ js ''-chunk-'' @ number_toString k) (set [0..<n])"
    by (rule inj_onI) (auto dest: number_toString_inj)
  then have "distinct (map (\<lambda>k. sanitize name @ js ''-chunk-'' @ number_toString k) [0..<n])"
    by (simp add: distinct_map)
  then show ?thesis
    by (simp add: chunk_record_def comp_def)
qed

lemma chunk_record_texts:
  "map (\<lambda>r. map_of (rec_metadata r) (js ''text''))
       (map (chunk_record w e name chunks stamp) [0..<length chunks])
     = map (\<lambda>c. Some (MString c)) chunks"
proof -
  have "map (\<lambda>r. map_of (rec_metadata r) (js ''text''))
          (map (chunk_record w e name chunks stamp) [0..<length chunks])
        = map (\<lambda>c. Some (MString c)) (map (\<lambda>k. chunks ! k) [0..<length chunks])"
    by (simp add: chunk_record_def comp_def)
  then show ?thesis by (simp only: map_nth)
qed

text \<open>
  C8. When the \<open>try\<close> body for a document completes normally, so that the document is
  ingested, and \<open>chunks\<close> are its \<open>n\<close> non-blank chunks: the batches sent to the store
  are the records of the chunks \<open>0, ..., n - 1\<close> cut into consecutive slices of
  \<open>BATCH_SIZE = 20\<close>, so every batch holds between 1 and 20 records and every batch but
  the last holds exactly 20; the texts of the records, in order, are the chunks, so each
  chunk is in exactly one record; the identifiers are pairwise different; and the
  tracker record of the document has \<open>chunkCount = n\<close>.
\<close>

theorem batches_of_at_most_twenty:
  assumes "completion (ingest_one w e tracker name) = Normal"
    and "readFileSync w name = Inr buffer"
    and "getText w buffer = Inr (rawText, pages)"
    and "splitText w rawText = Inr parts"
  shows "let chunks = nonblank parts; n = length chunks; d = ingest_one w e tracker name in
           0 < n
           \<and> upserted_batches d
               = batches_of BATCH_SIZE
                   (map (chunk_record w e name chunks (toISOString_now w name)) [0..<n])
           \<and> (\<forall>b\<in>set (upserted_batches d). 0 < length b \<and> length b \<le> 20)
           \<and> (\<forall>b\<in>set (butlast (upserted_batches d)). length b = 20)
           \<and> map (\<lambda>r. map_of (rec_metadata r) (js ''text'')) (concat (upserted_batches d))
               = map (\<lambda>c. Some (MString c)) chunks
           \<and> distinct (map rec_id (concat (upserted_batches d)))
           \<and> (\<exists>record. tracker_after d name = Some record \<and> chunkCount record = n)"
proof -
  let ?d = "ingest_body w e tracker name"
  let ?chunks = "nonblank parts"
  let ?R = "chunk_record w e name ?chunks (toISOString_now w name)"
  from assms(1) have "saved ?d \<noteq> [] \<or> tracker_after ?d \<noteq> tracker"
    by (simp add: ingest_body_Normal)
  then obtain buffer' stats rawText' pages' parts' n where
    "readFileSync w name = Inr buffer'" "statSync w name = Inr stats"
    "getText w buffer' = Inr (rawText', pages')"
    "splitText w rawText' = Inr parts'" and ne': "nonblank parts' \<noteq> []"
    and res': "b_result (upsert_batches w e name (nonblank parts') (toISOString_now w name) 0 0) = Inr n"
    and "embedded ?d
           = b_embedded (upsert_batches w e name (nonblank parts') (toISOString_now w name) 0 0)"
    and ups': "upserted_batches ?d
           = b_upserted (upsert_batches w e name (nonblank parts') (toISOString_now w name) 0 0)"
    and tr': "tracker_after ?d
           = tracker(name \<mapsto> \<lparr> filename = name, file_size = stat_size stats,
                                 lastModified = mtimeMs stats,
                                 ingestedAt = toISOString_now w name,
                                 chunkCount = n, pageCount = pages' \<rparr>)"
    and "saved ?d = [tracker_after ?d]"
    by (rule ingest_body_written)
  with assms(2-4) have same: "parts' = parts" by simp
  from ne' same have ne: "?chunks \<noteq> []" by simp
  from res' same
  have res: "b_result (upsert_batches w e name ?chunks (toISOString_now w name) 0 0) = Inr n"
    by simp
  from upsert_batches_Inr [OF res] have n: "n = length ?chunks"
    and "b_upserted (upsert_batches w e name ?chunks (toISOString_now w name) 0 0)
           = batches_of BATCH_SIZE (map ?R [0..<length ?chunks])"
    by simp_all
  with ups' same
  have ups: "upserted_batches ?d = batches_of BATCH_SIZE (map ?R [0..<length ?chunks])"
    by simp
  have cat: "concat (upserted_batches ?d) = map ?R [0..<length ?chunks]"
    unfolding ups by (rule concat_batches_of) (simp add: BATCH_SIZE_def)
  have sizes: "\<forall>b\<in>set (upserted_batches ?d). 0 < length b \<and> length b \<le> 20"
    unfolding ups using batches_of_lengths [where n = BATCH_SIZE] by (auto simp: BATCH_SIZE_def)
  have full: "\<forall>b\<in>set (butlast (upserted_batches ?d)). length b = 20"
    unfolding ups using batches_of_full [where n = BATCH_SIZE] by (auto simp: BATCH_SIZE_def)
  have texts: "map (\<lambda>r. map_of (rec_metadata r) (js ''text'')) (concat (upserted_batches ?d))
                 = map (\<lambda>c. Some (MString c)) ?chunks"
    unfolding cat by (rule chunk_record_texts)
  have ids: "distinct (map rec_id (concat (upserted_batches ?d)))"
    unfolding cat by (rule chunk_record_ids_distinct)
  from tr' n have count: "\<exists>record. tracker_after ?d name = Some record
                            \<and> chunkCount record = length ?chunks"
    by simp
  from ne ups sizes full texts ids count show ?thesis
    by (simp add: Let_def)
qed

lemma nonblank_long: "nonblank (replicate 21 (js ''Leave policy'')) = replicate 21 (js ''Leave policy'')"
proof -
  have "length (trim (js ''Leave policy'')) > 0"
    by (simp add: trim_def is_white_space_def js_def)
  then show ?thesis
    by (simp add: nonblank_def)
qed

lemma long_batches:
  "b_result (upsert_batches long_world e (js ''policy.pdf'') (replicate 21 (js ''Leave policy'')) stamp 0 0)
     = Inr 21"
proof -
  have "\<forall>k<length (replicate 21 (js ''Leave policy'')).
          \<exists>v. embedQuery e (provider long_world (js ''policy.pdf'') k)
                 (replicate 21 (js ''Leave policy'') ! k) = Inr v"
    by (simp add: long_world_def demo_world_def demo_embed)
  moreover have "\<forall>i records. upsert long_world (js ''policy.pdf'') i records = None"
    by (simp add: long_world_def demo_world_def)
  ultimately show ?thesis
    using upsert_batches_all_ok [of "replicate 21 (js ''Leave policy'')" e long_world
            "js ''policy.pdf''" stamp 0 0]
    by simp
qed

lemma long_normal:
  "completion (ingest_one long_world e Map.empty (js ''policy.pdf'')) = Normal"
proof -
  have a: "readFileSync long_world (js ''policy.pdf'') = Inr [8]"
    by (simp add: long_world_def demo_world_def js_def)
  have b: "getText long_world [8] = Inr (js ''Leave policy: 20 days annual leave.'', 3)"
    by (simp add: long_world_def demo_world_def)
  have c: "trim (js ''Leave policy: 20 days annual leave.'') \<noteq> []"
    by (simp add: trim_def is_white_space_def js_def)
  have d: "splitText long_world t = Inr (replicate 21 (js ''Leave policy''))" for t
    by (simp add: long_world_def demo_world_def)
  have f: "statSync long_world n = Inr \<lparr> stat_size = 10, mtimeMs = 5 \<rparr>"
     "writeFileSync long_world n t = None" for n t
    by (simp_all add: long_world_def demo_world_def)
  from c have c': "js ''Leave policy: 20 days annual leave.'' \<noteq> []" by auto
  show ?thesis
    by (simp add: ingest_body_def a b c c' d f nonblank_long long_batches Let_def)
qed

lemma batches_of_21: "map length (batches_of 20 (map f [0..<21])) = [20, 1]"
proof -
  have "batches_of 20 (map f [0..<21]) = map f [0..<20] # batches_of 20 (map f [20..<21])"
    by (subst batches_of_step) (simp_all add: take_map drop_map take_upt_min)
  also have "batches_of 20 (map f [20..<21]) = [map f [20..<21]]"
    by (subst batches_of_step) (simp_all add: take_map drop_map take_upt_min)
  finally show ?thesis by simp
qed

theorem batches_of_at_most_twenty_witness:
  "completion (ingest_one long_world (ingest_embedder long_world) Map.empty (js ''policy.pdf''))
     = Normal
   \<and> map length (upserted_batches
         (ingest_one long_world (ingest_embedder long_world) Map.empty (js ''policy.pdf'')))
       = [20, 1]
   \<and> (\<exists>record. tracker_after
          (ingest_one long_world (ingest_embedder long_world) Map.empty (js ''policy.pdf''))
          (js ''policy.pdf'') = Some record \<and> chunkCount record = 21)"
proof -
  let ?e = "ingest_embedder long_world"
  have b: "readFileSync long_world (js ''policy.pdf'') = Inr [8]"
    by (simp add: long_world_def demo_world_def js_def)
  have c: "getText long_world [8] = Inr (js ''Leave policy: 20 days annual leave.'', 3)"
    by (simp add: long_world_def demo_world_def)
  have d: "splitText long_world (js ''Leave policy: 20 days annual leave.'')
             = Inr (replicate 21 (js ''Leave policy''))"
    by (simp add: long_world_def demo_world_def)
  from batches_of_at_most_twenty [OF long_normal [of ?e] b c d]
  have "upserted_batches (ingest_one long_world ?e Map.empty (js ''policy.pdf''))
         = batches_of 20 (map (chunk_record long_world ?e (js ''policy.pdf'')
                                 (replicate 21 (js ''Leave policy''))
                                 (toISOString_now long_world (js ''policy.pdf''))) [0..<21])"
    and "\<exists>record. tracker_after (ingest_one long_world ?e Map.empty (js ''policy.pdf''))
                     (js ''policy.pdf'') = Some record \<and> chunkCount record = 21"
    by (simp_all add: Let_def nonblank_long BATCH_SIZE_def)
  then show ?thesis
    by (simp only: batches_of_21 long_normal simp_thms)
qed

lemma embedQuery_empty_vector:
  assumes "fetch (embed_request e t) = Inr res" and "json res = Inr data"
    and "map_option values (embedding data) = Some []"
  shows "\<exists>err. embedQuery e fetch t = Inl err"
  using assms by (auto simp: embedQuery_def)

text \<open>
  C2. In every iteration of the document loop, from whatever tracker it starts: if
  the tracker entry of the document is assigned or \<open>saveTracker\<close> is called, then the
  file was read, its text extracted and split, every non-blank chunk was sent to the
  provider and \<open>embedQuery\<close> returned a non-empty vector for it, the records of all
  chunks were sent to the store, and every \<open>index.upsert\<close> call returned; the entry
  then holds the number of chunks. Hence a failure at any of these steps leaves the
  tracker as it was and \<open>saveTracker\<close> uncalled. In particular, if the provider answers
  the request for some chunk with a vector of length zero, the tracker is unchanged,
  nothing is saved, and the body does not complete normally. An iteration never touches
  the entry of another file. (When \<open>saveTracker\<close> itself throws, the entry has been
  assigned in memory; all chunks of the document are in the store by then.)
\<close>

theorem ledger_written_only_after_all_chunks_stored:
  "let d = ingest_one w e tracker name in
     ((saved d \<noteq> [] \<or> tracker_after d \<noteq> tracker) \<longrightarrow>
        (\<exists>buffer stats rawText pages parts.
           readFileSync w name = Inr buffer \<and> statSync w name = Inr stats
           \<and> getText w buffer = Inr (rawText, pages) \<and> splitText w rawText = Inr parts
           \<and> (let chunks = nonblank parts in
                chunks \<noteq> []
                \<and> embedded d = chunks
                \<and> (\<forall>k<length chunks.
                      \<exists>v. embedQuery e (provider w name k) (chunks ! k) = Inr v \<and> v \<noteq> [])
                \<and> concat (upserted_batches d)
                    = map (chunk_record w e name chunks (toISOString_now w name))
                        [0..<length chunks]
                \<and> (\<forall>b<length (upserted_batches d).
                      upsert w name (b * BATCH_SIZE) (upserted_batches d ! b) = None)
                \<and> tracker_after d
                    = tracker(name \<mapsto> \<lparr> filename = name, file_size = stat_size stats,
                                          lastModified = mtimeMs stats,
                                          ingestedAt = toISOString_now w name,
                                          chunkCount = length chunks, pageCount = pages \<rparr>)
                \<and> saved d = [tracker_after d])))
     \<and> ((\<exists>buffer rawText pages parts k res data.
            readFileSync w name = Inr buffer \<and> getText w buffer = Inr (rawText, pages)
            \<and> splitText w rawText = Inr parts \<and> k < length (nonblank parts)
            \<and> provider w name k (embed_request e (nonblank parts ! k)) = Inr res
            \<and> json res = Inr data \<and> map_option values (embedding data) = Some [])
          \<longrightarrow> tracker_after d = tracker \<and> saved d = [] \<and> completion d \<noteq> Normal)
     \<and> (\<forall>n. n \<noteq> name \<longrightarrow> tracker_after d n = tracker n)"
proof -
  let ?d = "ingest_body w e tracker name"
  have written: "\<exists>buffer stats rawText pages parts.
       readFileSync w name = Inr buffer \<and> statSync w name = Inr stats
       \<and> getText w buffer = Inr (rawText, pages) \<and> splitText w rawText = Inr parts
       \<and> nonblank parts \<noteq> []
       \<and> embedded ?d = nonblank parts
       \<and> (\<forall>k<length (nonblank parts).
             \<exists>v. embedQuery e (provider w name k) (nonblank parts ! k) = Inr v \<and> v \<noteq> [])
       \<and> concat (upserted_batches ?d)
           = map (chunk_record w e name (nonblank parts) (toISOString_now w name))
               [0..<length (nonblank parts)]
       \<and> (\<forall>b<length (upserted_batches ?d).
             upsert w name (b * BATCH_SIZE) (upserted_batches ?d ! b) = None)
       \<and> tracker_after ?d
           = tracker(name \<mapsto> \<lparr> filename = name, file_size = stat_size stats,
                                 lastModified = mtimeMs stats,
                                 ingestedAt = toISOString_now w name,
                                 chunkCount = length (nonblank parts), pageCount = pages \<rparr>)
       \<and> saved ?d = [tracker_after ?d]"
    if "saved ?d \<noteq> [] \<or> tracker_after ?d \<noteq> tracker"
  proof -
    from that obtain buffer stats rawText pages parts n where
      1: "readFileSync w name = Inr buffer" "statSync w name = Inr stats"
         "getText w buffer = Inr (rawText, pages)" "splitText w rawText = Inr parts"
      and ne: "nonblank parts \<noteq> []"
      and res: "b_result (upsert_batches w e name (nonblank parts) (toISOString_now w name) 0 0)
                  = Inr n"
      and emb: "embedded ?d
           = b_embedded (upsert_batches w e name (nonblank parts) (toISOString_now w name) 0 0)"
      and ups: "upserted_batches ?d
           = b_upserted (upsert_batches w e name (nonblank parts) (toISOString_now w name) 0 0)"
      and tr: "tracker_after ?d
           = tracker(name \<mapsto> \<lparr> filename = name, file_size = stat_size stats,
                                 lastModified = mtimeMs stats,
                                 ingestedAt = toISOString_now w name,
                                 chunkCount = n, pageCount = pages \<rparr>)"
      and sv: "saved ?d = [tracker_after ?d]"
      by (rule ingest_body_written)
    from upsert_batches_Inr [OF res] have n: "n = length (nonblank parts)"
      and calls: "b_embedded (upsert_batches w e name (nonblank parts) (toISOString_now w name) 0 0)
                    = nonblank parts"
      and batches: "b_upserted (upsert_batches w e name (nonblank parts) (toISOString_now w name) 0 0)
           = batches_of BATCH_SIZE
               (map (chunk_record w e name (nonblank parts) (toISOString_now w name))
                  [0..<length (nonblank parts)])"
      and ok: "\<forall>k<length (nonblank parts).
                 \<exists>v. embedQuery e (provider w name k) (nonblank parts ! k) = Inr v"
      by simp_all
    have ok': "\<forall>k<length (nonblank parts).
                 \<exists>v. embedQuery e (provider w name k) (nonblank parts ! k) = Inr v \<and> v \<noteq> []"
    proof (intro allI impI)
      fix k assume "k < length (nonblank parts)"
      with ok obtain v where v: "embedQuery e (provider w name k) (nonblank parts ! k) = Inr v"
        by blast
      then have "v \<noteq> []" by (rule embedQuery_success_cases)
      with v show "\<exists>v. embedQuery e (provider w name k) (nonblank parts ! k) = Inr v \<and> v \<noteq> []"
        by blast
    qed
    have cat: "concat (upserted_batches ?d)
           = map (chunk_record w e name (nonblank parts) (toISOString_now w name))
               [0..<length (nonblank parts)]"
      unfolding ups batches by (rule concat_batches_of) (simp add: BATCH_SIZE_def)
    from upsert_batches_upsert_ok [OF res] ups
    have stored: "\<forall>b<length (upserted_batches ?d).
             upsert w name (b * BATCH_SIZE) (upserted_batches ?d ! b) = None"
      by simp
    from 1 ne emb calls ok' cat stored tr n sv show ?thesis
      by (intro exI conjI) simp_all
  qed
  have unchanged: "tracker_after ?d = tracker \<and> saved ?d = [] \<and> completion ?d \<noteq> Normal"
    if "\<exists>buffer rawText pages parts k res data.
            readFileSync w name = Inr buffer \<and> getText w buffer = Inr (rawText, pages)
            \<and> splitText w rawText = Inr parts \<and> k < length (nonblank parts)
            \<and> provider w name k (embed_request e (nonblank parts ! k)) = Inr res
            \<and> json res = Inr data \<and> map_option values (embedding data) = Some []"
  proof (rule ccontr)
    assume "\<not> (tracker_after ?d = tracker \<and> saved ?d = [] \<and> completion ?d \<noteq> Normal)"
    then have "saved ?d \<noteq> [] \<or> tracker_after ?d \<noteq> tracker"
      using ingest_body_Normal [of w e tracker name] by blast
    from written [OF this] obtain buffer' rawText' pages' parts' where
      1: "readFileSync w name = Inr buffer'" "getText w buffer' = Inr (rawText', pages')"
         "splitText w rawText' = Inr parts'"
      and ok: "\<forall>k<length (nonblank parts').
             \<exists>v. embedQuery e (provider w name k) (nonblank parts' ! k) = Inr v \<and> v \<noteq> []"
      by blast
    from that obtain buffer rawText pages parts k res data where
      2: "readFileSync w name = Inr buffer" "getText w buffer = Inr (rawText, pages)"
         "splitText w rawText = Inr parts"
      and k: "k < length (nonblank parts)"
      and bad: "provider w name k (embed_request e (nonblank parts ! k)) = Inr res"
         "json res = Inr data" "map_option values (embedding data) = Some []"
      by blast
    from 1 2 have "parts' = parts" by simp
    with ok k obtain v where "embedQuery e (provider w name k) (nonblank parts ! k) = Inr v"
      by blast
    with embedQuery_empty_vector [where fetch = "provider w name k", OF bad] show False by simp
  qed
  from written unchanged ingest_body_frame [of _ name w e tracker] show ?thesis
    by (simp add: Let_def)
qed


theorem ledger_written_only_after_all_chunks_stored_witness:
  "saved (ingest_one demo_world (ingest_embedder demo_world) Map.empty (js ''policy.pdf'')) \<noteq> []
   \<and> embedded (ingest_one demo_world (ingest_embedder demo_world) Map.empty (js ''policy.pdf''))
       = [js ''Leave policy:'', js ''20 days annual leave.'']
   \<and> tracker_after (ingest_one empty_vector_world (ingest_embedder demo_world) Map.empty
                       (js ''policy.pdf'')) = Map.empty
   \<and> saved (ingest_one empty_vector_world (ingest_embedder demo_world) Map.empty
               (js ''policy.pdf'')) = []"
proof -
  let ?e = "ingest_embedder demo_world"
  let ?chunks = "[js ''Leave policy:'', js ''20 days annual leave.'']"
  have s: "saved (ingest_one demo_world ?e Map.empty (js ''policy.pdf'')) \<noteq> []"
    by (simp add: demo_body)
  from ledger_written_only_after_all_chunks_stored
         [of demo_world ?e Map.empty "js ''policy.pdf''", unfolded Let_def] s
  obtain rawText parts where split: "splitText demo_world rawText = Inr parts"
    and sent: "embedded (ingest_one demo_world ?e Map.empty (js ''policy.pdf'')) = nonblank parts"
    by blast
  have "splitText demo_world rawText
          = Inr [js ''Leave policy:'', js '' '', js ''20 days annual leave.'']"
    by (simp add: demo_world_def)
  with split have "parts = [js ''Leave policy:'', js '' '', js ''20 days annual leave.'']"
    by simp
  with sent have first: "embedded (ingest_one demo_world ?e Map.empty (js ''policy.pdf'')) = ?chunks"
    by (simp only: nonblank_demo)
  have r: "readFileSync empty_vector_world (js ''policy.pdf'') = Inr [8]"
    by (simp add: empty_vector_world_def demo_world_def js_def)
  have g: "getText empty_vector_world [8] = Inr (js ''Leave policy: 20 days annual leave.'', 3)"
    by (simp add: empty_vector_world_def demo_world_def)
  have sp: "splitText empty_vector_world (js ''Leave policy: 20 days annual leave.'')
              = Inr [js ''Leave policy:'', js '' '', js ''20 days annual leave.'']"
    by (simp add: empty_vector_world_def demo_world_def)
  have k: "1 < length (nonblank [js ''Leave policy:'', js '' '', js ''20 days annual leave.''])"
    by (simp add: nonblank_demo)
  have p: "provider empty_vector_world (js ''policy.pdf'') 1
             (embed_request ?e
                (nonblank [js ''Leave policy:'', js '' '', js ''20 days annual leave.''] ! 1))
           = Inr \<lparr> ok = True, status = 200,
                   json = Inr \<lparr> embedding = Some \<lparr> values = [] \<rparr>, error = None \<rparr> \<rparr>"
    by (simp add: empty_vector_world_def demo_world_def respond_with_def)
  have j: "json \<lparr> ok = True, status = 200,
                  json = Inr \<lparr> embedding = Some \<lparr> values = [] \<rparr>, error = None \<rparr> \<rparr>
           = Inr \<lparr> embedding = Some \<lparr> values = [] \<rparr>, error = None \<rparr>"
    by simp
  have m: "map_option values (embedding \<lparr> embedding = Some \<lparr> values = [] \<rparr>, error = None \<rparr>)
           = Some []"
    by simp
  from r g sp k p j m
  have "\<exists>buffer rawText pages parts k res data.
            readFileSync empty_vector_world (js ''policy.pdf'') = Inr buffer
            \<and> getText empty_vector_world buffer = Inr (rawText, pages)
            \<and> splitText empty_vector_world rawText = Inr parts \<and> k < length (nonblank parts)
            \<and> provider empty_vector_world (js ''policy.pdf'') k
                 (embed_request ?e (nonblank parts ! k)) = Inr res
            \<and> json res = Inr data \<and> map_option values (embedding data) = Some []"
    by blast
  with ledger_written_only_after_all_chunks_stored
         [of empty_vector_world ?e Map.empty "js ''policy.pdf''", unfolded Let_def]
  have "tracker_after (ingest_one empty_vector_world ?e Map.empty (js ''policy.pdf'')) = Map.empty
        \<and> saved (ingest_one empty_vector_world ?e Map.empty (js ''policy.pdf'')) = []"
    by blast
  with s first show ?thesis by simp
qed

subsection \<open>The document loop\<close>

lemma ingest_loop_names: "map fst (ingest_loop w e tracker names) = names"
  by (induction names arbitrary: tracker) (simp_all add: Let_def)

lemma ingest_loop_iteration:
  "(name, d) \<in> set (ingest_loop w e tracker names) \<Longrightarrow> \<exists>tr. d = ingest_one w e tr name"
  by (induction names arbitrary: tracker) (auto simp: Let_def)

lemma ingest_one_announced:
  "LogProcessing name \<in> set (logged (ingest_one w e tracker name))"
  by (simp add: ingest_one_def Let_def)

lemma ingest_one_failure_logged:
  "completion (ingest_one w e tracker name) = Throw err \<Longrightarrow>
     LogFailed name (message_of err) \<in> set (logged (ingest_one w e tracker name))"
  by (simp add: ingest_one_def Let_def)

lemma ingest_body_upserted:
  "upserted_batches (ingest_body w e tracker name) = []
   \<or> (\<exists>chunks stamp. upserted_batches (ingest_body w e tracker name)
          = b_upserted (upsert_batches w e name chunks stamp 0 0))"
  by (auto simp: ingest_body_def thrown_def skipped_def Let_def
           split: sum.splits prod.splits option.splits)

lemma ingest_one_sources:
  assumes "rc \<in> set (concat (upserted_batches (ingest_one w e tracker name)))"
  shows "map_of (rec_metadata rc) (js ''source'') = Some (MString name)"
  using assms ingest_body_upserted [of w e tracker name]
  by (auto dest: upsert_batches_sources simp del: set_concat)

lemma toIngest_kept:
  "toIngest w tracker names = Inr files \<Longrightarrow>
     (\<forall>n\<in>set names. \<exists>stats. statSync_scan w n = Inr stats)
     \<and> set files = {n \<in> set names. \<exists>stats. statSync_scan w n = Inr stats \<and> changed tracker n stats}"
proof (induction names arbitrary: files)
  case Nil
  then show ?case by simp
next
  case (Cons name names)
  from Cons.prems obtain stats kept where st: "statSync_scan w name = Inr stats"
    and kept: "toIngest w tracker names = Inr kept"
    and files: "files = (if changed tracker name stats then name # kept else kept)"
    by (auto split: sum.splits)
  from Cons.IH [OF kept] st files show ?case by auto
qed

lemma ingestAllPdfs_cases:
  assumes "\<not> unset (GOOGLE_API_KEY w)" and "\<not> unset (PINECONE_API_KEY w)"
    and "\<not> unset (PINECONE_INDEX w)" and "pdfs_dir_exists w"
  shows "ingestAllPdfs w =
     (case toIngest w (loadTracker w) (pdf_names w) of
        Inl err \<Rightarrow> Inl err
      | Inr files \<Rightarrow>
          if files = []
          then Inr (quiet (if pdf_names w = [] then LogNoPdfs else LogAllIngested (pdf_names w)))
          else Inr \<lparr> iterations = ingest_loop w (ingest_embedder w) (loadTracker w) files,
                     console = LogIngesting (length files)
                       # concat (map (\<lambda>(name, d). logged d)
                                  (ingest_loop w (ingest_embedder w) (loadTracker w) files))
                       @ [LogComplete] \<rparr>)"
  using assms
  by (cases "pdf_names w") (simp_all add: ingestAllPdfs_def Let_def split: sum.splits)

lemma demo_configured:
  "\<not> unset (GOOGLE_API_KEY demo_world)" "\<not> unset (PINECONE_API_KEY demo_world)"
  "\<not> unset (PINECONE_INDEX demo_world)" "pdfs_dir_exists demo_world"
  by (simp_all add: demo_world_def unset_def js_def)

lemma demo_tracker:
  "loadTracker demo_world (js ''broken.pdf'') = None"
  "loadTracker demo_world (js ''policy.pdf'') = None"
  "loadTracker demo_world (js ''old.pdf'')
     = Some \<lparr> filename = js ''old.pdf'', file_size = 10, lastModified = 5,
              ingestedAt = js ''2026-01-01T00:00:00.000Z'', chunkCount = 3, pageCount = 1 \<rparr>"
  by (simp_all add: loadTracker_def demo_world_def js_def)

lemma demo_scan: "statSync_scan demo_world name = Inr \<lparr> stat_size = 10, mtimeMs = 5 \<rparr>"
  by (simp add: demo_world_def)

lemma demo_toIngest:
  "toIngest demo_world (loadTracker demo_world) (pdf_names demo_world)
     = Inr [js ''broken.pdf'', js ''policy.pdf'']"
proof -
  have "pdf_names demo_world = [js ''broken.pdf'', js ''policy.pdf'', js ''old.pdf'']"
    by (simp add: demo_world_def)
  then show ?thesis
    by (simp add: demo_scan changed_def demo_tracker)
qed

lemma demo_broken:
  "completion (ingest_one demo_world e tracker (js ''broken.pdf''))
     = Throw (Error (js ''Invalid PDF structure''))"
  by (simp add: ingest_body_def demo_world_def thrown_def)

text \<open>
  C3. Once the run has passed its configuration checks and selected the files to
  ingest, it returns normally whatever happens inside the iterations: the loop runs
  once for every selected file, in order, each iteration being the \<open>try\<close>/\<open>catch\<close> step
  for that file; every file is announced on the console; an error thrown by the body
  for a file is caught and logged with the file's name and the error's message; and
  when at least one file was selected the last console line is "Ingestion complete".
\<close>

theorem one_failure_never_aborts_the_run:
  assumes "\<not> unset (GOOGLE_API_KEY w)" and "\<not> unset (PINECONE_API_KEY w)"
    and "\<not> unset (PINECONE_INDEX w)" and "pdfs_dir_exists w"
    and "toIngest w (loadTracker w) (pdf_names w) = Inr files"
  shows "\<exists>r. ingestAllPdfs w = Inr r
           \<and> map fst (iterations r) = files
           \<and> (\<forall>(name, d)\<in>set (iterations r).
                 (\<exists>tracker. d = ingest_one w (ingest_embedder w) tracker name)
                 \<and> LogProcessing name \<in> set (console r)
                 \<and> (\<forall>err. completion d = Throw err \<longrightarrow>
                        LogFailed name (message_of err) \<in> set (console r)))
           \<and> (files \<noteq> [] \<longrightarrow> last (console r) = LogComplete)"
proof (cases "files = []")
  case True
  with assms show ?thesis
    by (simp add: ingestAllPdfs_cases quiet_def)
next
  case False
  let ?its = "ingest_loop w (ingest_embedder w) (loadTracker w) files"
  let ?r = "\<lparr> iterations = ?its,
              console = LogIngesting (length files) # concat (map (\<lambda>(name, d). logged d) ?its)
                        @ [LogComplete] \<rparr>"
  from False assms have run: "ingestAllPdfs w = Inr ?r"
    by (simp add: ingestAllPdfs_cases)
  have each: "(\<exists>tracker. d = ingest_one w (ingest_embedder w) tracker name)
              \<and> LogProcessing name \<in> set (console ?r)
              \<and> (\<forall>err. completion d = Throw err \<longrightarrow> LogFailed name (message_of err) \<in> set (console ?r))"
    if "(name, d) \<in> set ?its" for name d
  proof -
    from that obtain tr where d: "d = ingest_one w (ingest_embedder w) tr name"
      by (auto dest: ingest_loop_iteration)
    from that have "set (logged d) \<subseteq> set (console ?r)" by auto
    with d ingest_one_announced [of name w "ingest_embedder w" tr]
      ingest_one_failure_logged [of w "ingest_embedder w" tr name]
    show ?thesis by blast
  qed
  from run each show ?thesis
    by (auto simp: ingest_loop_names)
qed

theorem one_failure_never_aborts_the_run_witness:
  "\<exists>r. ingestAllPdfs demo_world = Inr r
       \<and> map fst (iterations r) = [js ''broken.pdf'', js ''policy.pdf'']
       \<and> LogFailed (js ''broken.pdf'') (js ''Invalid PDF structure'') \<in> set (console r)
       \<and> LogProcessing (js ''policy.pdf'') \<in> set (console r)
       \<and> last (console r) = LogComplete"
proof -
  from one_failure_never_aborts_the_run [OF demo_configured demo_toIngest]
  obtain r where run: "ingestAllPdfs demo_world = Inr r"
    and names: "map fst (iterations r) = [js ''broken.pdf'', js ''policy.pdf'']"
    and each: "\<forall>(name, d)\<in>set (iterations r).
                 (\<exists>tracker. d = ingest_one demo_world (ingest_embedder demo_world) tracker name)
                 \<and> LogProcessing name \<in> set (console r)
                 \<and> (\<forall>err. completion d = Throw err \<longrightarrow>
                        LogFailed name (message_of err) \<in> set (console r))"
    and fin: "last (console r) = LogComplete"
    by auto
  from names have "js ''broken.pdf'' \<in> set (map fst (iterations r))"
    and "js ''policy.pdf'' \<in> set (map fst (iterations r))"
    by simp_all
  then obtain d1 d2 where m1: "(js ''broken.pdf'', d1) \<in> set (iterations r)"
    and m2: "(js ''policy.pdf'', d2) \<in> set (iterations r)"
    by auto
  from bspec [OF each m1]
  have ex: "\<exists>tracker. d1 = ingest_one demo_world (ingest_embedder demo_world) tracker (js ''broken.pdf'')"
    and caught: "\<forall>err. completion d1 = Throw err \<longrightarrow>
                   LogFailed (js ''broken.pdf'') (message_of err) \<in> set (console r)"
    by simp_all
  from ex obtain tracker
    where "d1 = ingest_one demo_world (ingest_embedder demo_world) tracker (js ''broken.pdf'')" ..
  then have "completion d1 = Throw (Error (js ''Invalid PDF structure''))"
    by (simp only: demo_broken)
  with caught have 1: "LogFailed (js ''broken.pdf'') (js ''Invalid PDF structure'') \<in> set (console r)"
    by fastforce
  from bspec [OF each m2] have 2: "LogProcessing (js ''policy.pdf'') \<in> set (console r)"
    by simp
  from run names 1 2 fin show ?thesis
    by (intro exI [of _ r] conjI)
qed

text \<open>
  C5. In a run that passed its configuration checks and returned, a PDF of the folder
  gets a loop iteration exactly when the tracker has no record of it or the record's
  size or modification time differs from the file's. A file without an iteration has
  no record in any batch sent to the store, and a run without iterations calls neither
  the provider nor the store.
\<close>

theorem unchanged_documents_are_skipped:
  assumes "ingestAllPdfs w = Inr r"
    and "\<not> unset (GOOGLE_API_KEY w)" and "\<not> unset (PINECONE_API_KEY w)"
    and "\<not> unset (PINECONE_INDEX w)" and "pdfs_dir_exists w"
    and "name \<in> set (pdf_names w)"
  shows "\<exists>stats. statSync_scan w name = Inr stats
           \<and> (name \<in> fst ` set (iterations r) \<longleftrightarrow>
                (case loadTracker w name of
                   None \<Rightarrow> True
                 | Some record \<Rightarrow> file_size record \<noteq> stat_size stats
                                  \<or> lastModified record \<noteq> mtimeMs stats))
           \<and> (name \<notin> fst ` set (iterations r) \<longrightarrow>
                (\<forall>batch\<in>set (run_upserted r). \<forall>rc\<in>set batch.
                    map_of (rec_metadata rc) (js ''source'') \<noteq> Some (MString name)))
           \<and> (iterations r = [] \<longrightarrow> run_embedded r = [] \<and> run_upserted r = [])"
proof -
  from assms(1-5) obtain files where files: "toIngest w (loadTracker w) (pdf_names w) = Inr files"
    and its: "iterations r = ingest_loop w (ingest_embedder w) (loadTracker w) files"
    by (auto simp: ingestAllPdfs_cases quiet_def split: sum.splits if_splits)
  from toIngest_kept [OF files] assms(6) obtain stats where st: "statSync_scan w name = Inr stats"
    and kept: "name \<in> set files \<longleftrightarrow> changed (loadTracker w) name stats"
    by auto
  from its have names: "fst ` set (iterations r) = set files"
    using ingest_loop_names [of w "ingest_embedder w" "loadTracker w" files]
    by (metis set_map)
  have sources: "map_of (rec_metadata rc) (js ''source'') \<noteq> Some (MString name)"
    if "name \<notin> fst ` set (iterations r)" and "batch \<in> set (run_upserted r)" and "rc \<in> set batch"
    for batch rc
  proof -
    from that(2) obtain n d where nd: "(n, d) \<in> set (iterations r)"
      and b: "batch \<in> set (upserted_batches d)"
      by (auto simp: run_upserted_def)
    from nd its obtain tr where "d = ingest_one w (ingest_embedder w) tr n"
      by (auto dest: ingest_loop_iteration)
    moreover from b that(3) have "rc \<in> set (concat (upserted_batches d))" by auto
    ultimately have "map_of (rec_metadata rc) (js ''source'') = Some (MString n)"
      by (simp only: ingest_one_sources)
    moreover from nd that(1) have "n \<noteq> name" by force
    ultimately show ?thesis by simp
  qed
  from st kept names sources show ?thesis
    by (auto simp: changed_def run_embedded_def run_upserted_def)
qed


theorem unchanged_documents_are_skipped_witness:
  "\<exists>r. ingestAllPdfs demo_world = Inr r
       \<and> js ''old.pdf'' \<notin> fst ` set (iterations r)
       \<and> js ''policy.pdf'' \<in> fst ` set (iterations r)"
proof -
  obtain r where run: "ingestAllPdfs demo_world = Inr r"
    by (simp add: ingestAllPdfs_cases demo_configured demo_toIngest)
  have old: "js ''old.pdf'' \<in> set (pdf_names demo_world)"
    and new: "js ''policy.pdf'' \<in> set (pdf_names demo_world)"
    by (simp_all add: demo_world_def)
  from unchanged_documents_are_skipped [OF run demo_configured old]
  have "js ''old.pdf'' \<notin> fst ` set (iterations r)"
    by (simp add: demo_scan demo_tracker)
  moreover from unchanged_documents_are_skipped [OF run demo_configured new]
  have "js ''policy.pdf'' \<in> fst ` set (iterations r)"
    by (simp add: demo_scan demo_tracker)
  ultimately show ?thesis using run
    by (intro exI [of _ r] conjI)
qed

section \<open>Properties of the query route\<close>

subsection \<open>The source list\<close>

lemma Map_set_keys:
  "map fst (Map_set m k v) = (if k \<in> set (map fst m) then map fst m else map fst m @ [k])"
proof (induction m)
  case Nil
  show ?case by simp
next
  case (Cons e m)
  obtain k' v' where e: "e = (k', v')" by (cases e)
  show ?case
  proof (cases "k' = k")
    case True
    with e show ?thesis by simp
  next
    case False
    with e Cons.IH show ?thesis by (cases "k \<in> set (map fst m)") simp_all
  qed
qed

lemma Map_set_distinct: "distinct (map fst m) \<Longrightarrow> distinct (map fst (Map_set m k v))"
  by (simp add: Map_set_keys)

lemma map_of_Map_set: "map_of (Map_set m k v) = (map_of m)(k \<mapsto> v)"
  by (induction m) auto

lemma foldl_Map_set_distinct:
  "distinct (map fst m) \<Longrightarrow> distinct (map fst (foldl (\<lambda>m (k, v). Map_set m k v) m es))"
  by (induction es arbitrary: m) (auto simp: Map_set_distinct)

lemma map_of_foldl_Map_set:
  "map_of (foldl (\<lambda>m (k, v). Map_set m k v) m es) = map_of m ++ map_of (rev es)"
proof (induction es arbitrary: m)
  case Nil
  show ?case by simp
next
  case (Cons e es)
  obtain k v where e: "e = (k, v)" by (cases e)
  have "map_of (Map_set m k v) ++ map_of (rev es) = map_of m ++ map_of (rev es @ [(k, v)])"
    by (simp add: map_of_Map_set map_add_upd_left fun_eq_iff map_add_def split: option.splits)
  with Cons.IH [of "Map_set m k v"] e show ?case by simp
qed

lemma new_Map_distinct: "distinct (map fst (new_Map es))"
  unfolding new_Map_def by (rule foldl_Map_set_distinct) simp

lemma map_of_new_Map: "map_of (new_Map es) = map_of (rev es)"
  by (simp add: new_Map_def map_of_foldl_Map_set)

lemma keys_new_Map: "set (map fst (new_Map es)) = set (map fst es)"
proof -
  have "dom (map_of (new_Map es)) = dom (map_of (rev es))"
    by (simp add: map_of_new_Map)
  then show ?thesis by (simp add: dom_map_of_conv_image_fst)
qed

lemma map_of_rev_keyed:
  "map_of (rev (map (\<lambda>d. (f d, d)) ds)) k =
     (if filter (\<lambda>d. f d = k) ds = [] then None else Some (last (filter (\<lambda>d. f d = k) ds)))"
  by (induction ds rule: rev_induct) (auto simp: map_add_def)

lemma new_Map_keyed_entry:
  assumes "(k, s) \<in> set (new_Map (map (\<lambda>d. (f d, d)) ds))"
  shows "filter (\<lambda>d. f d = k) ds \<noteq> [] \<and> s = last (filter (\<lambda>d. f d = k) ds)"
proof -
  from assms have "map_of (new_Map (map (\<lambda>d. (f d, d)) ds)) k = Some s"
    by (simp add: new_Map_distinct)
  then have "map_of (rev (map (\<lambda>d. (f d, d)) ds)) k = Some s"
    by (simp add: map_of_new_Map)
  then show ?thesis
    by (simp add: map_of_rev_keyed split: if_splits)
qed

lemma new_Map_keyed_fst:
  assumes "(k, s) \<in> set (new_Map (map (\<lambda>d. (f d, d)) ds))"
  shows "f s = k \<and> s \<in> set ds"
proof -
  let ?ys = "filter (\<lambda>d. f d = k) ds"
  from new_Map_keyed_entry [OF assms] have ne: "?ys \<noteq> []" and s: "s = last ?ys" by simp_all
  from ne have "last ?ys \<in> set ?ys" by (rule last_in_set)
  with s show ?thesis by simp
qed

lemma uniqueSources_keys:
  "map source (uniqueSources ms) = map fst (new_Map (map (\<lambda>s. (source s, s)) (map descriptor ms)))"
proof -
  have "\<forall>(k, s)\<in>set (new_Map (map (\<lambda>s. (source s, s)) (map descriptor ms))). source s = k"
    using new_Map_keyed_fst [where f = source] by blast
  then show ?thesis
    by (auto simp: uniqueSources_def Map_values_def)
qed

lemma uniqueSources_distinct: "distinct (map source (uniqueSources ms))"
  by (simp only: uniqueSources_keys new_Map_distinct)

lemma uniqueSources_names:
  "set (map source (uniqueSources ms)) = set (map (source \<circ> descriptor) ms)"
  by (simp only: uniqueSources_keys keys_new_Map) (simp add: comp_def)

lemma uniqueSources_last:
  assumes "s \<in> set (uniqueSources ms)"
  shows "s = last (filter (\<lambda>d. source d = source s) (map descriptor ms))"
proof -
  from assms obtain k
    where ks: "(k, s) \<in> set (new_Map (map (\<lambda>s. (source s, s)) (map descriptor ms)))"
    by (auto simp: uniqueSources_def Map_values_def)
  from new_Map_keyed_fst [OF ks] new_Map_keyed_entry [OF ks]
  show ?thesis by simp
qed

lemma uniqueSources_subset: "set (uniqueSources ms) \<subseteq> descriptor ` set ms"
proof
  fix s assume "s \<in> set (uniqueSources ms)"
  then obtain k where "(k, s) \<in> set (new_Map (map (\<lambda>s. (source s, s)) (map descriptor ms)))"
    by (auto simp: uniqueSources_def Map_values_def)
  from new_Map_keyed_fst [OF this] show "s \<in> descriptor ` set ms" by simp
qed

lemma uniqueSources_nonempty: "ms \<noteq> [] \<Longrightarrow> uniqueSources ms \<noteq> []"
  using uniqueSources_names [of ms] by (cases ms) auto

lemma stored_eq:
  "k < 9 \<Longrightarrow> stored name k =
     [(js ''text'', MString (js ''Leave policy: 20 days annual leave.'')),
      (js ''source'', MString name),
      (js ''chunkIndex'', MNumber k),
      (js ''totalChunks'', MNumber 9),
      (js ''ingestedAt'', MString (js ''2026-02-17T10:00:00.000Z''))]"
  by (simp add: stored_def build_records_nth)

lemma three_matches_ingested:
  "\<forall>m\<in>set three_matches. \<exists>name tot stamp i batch vectors j. j < length batch
      \<and> match_metadata m = Some (rec_metadata (build_records name tot stamp i batch vectors ! j))"
proof -
  have "\<exists>name tot stamp i batch vectors j. j < length batch
          \<and> Some (stored nm k) = Some (rec_metadata (build_records name tot stamp i batch vectors ! j))"
    if "k < 9" for nm k
    unfolding stored_def
    by (rule exI [of _ nm], rule exI [of _ 9], rule exI, rule exI [of _ 0],
        rule exI [of _ "replicate 9 (js ''Leave policy: 20 days annual leave.'')"],
        rule exI, rule exI [of _ k], rule conjI [OF _ refl]) (use that in simp)
  then show ?thesis by (simp add: three_matches_def)
qed

text \<open>
  C4, amended. The source list has exactly one entry per distinct source file name
  among the matches, and each entry is the descriptor of the last match with that file
  name (the one of lowest similarity), because \<open>new Map\<close> overwrites the value of a
  key that is already present.
\<close>

theorem uniqueSources_one_per_filename:
  "distinct (map source (uniqueSources ms))
   \<and> set (map source (uniqueSources ms)) = set (map (source \<circ> descriptor) ms)
   \<and> (\<forall>s\<in>set (uniqueSources ms).
        s = last (filter (\<lambda>d. source d = source s) (map descriptor ms)))"
  using uniqueSources_distinct uniqueSources_names uniqueSources_last by blast

lemma uniqueSources_three:
  "uniqueSources three_matches =
     [\<lparr> source = Some (MString (js ''a.pdf'')), chunkIndex = Some (MNumber 5), uploadedAt = None \<rparr>,
      \<lparr> source = Some (MString (js ''b.pdf'')), chunkIndex = Some (MNumber 1), uploadedAt = None \<rparr>]"
  by (simp add: uniqueSources_def three_matches_def stored_eq descriptor_def member_def
      new_Map_def Map_values_def js_def)

text \<open>
  C4 as stated fails in which match an entry comes from. For two matches from
  \<open>a.pdf\<close> (chunks 0 and 5) followed by one from \<open>b.pdf\<close> the list has two entries,
  as claimed, but the entry for \<open>a.pdf\<close> carries chunk index 5, that of the second
  match; the descriptor of the first, most similar match is not in the list.
\<close>

theorem uniqueSources_first_counterexample:
  "length (uniqueSources three_matches) = 2
   \<and> source (descriptor (three_matches ! 0)) = source (uniqueSources three_matches ! 0)
   \<and> chunkIndex (descriptor (three_matches ! 0)) = Some (MNumber 0)
   \<and> chunkIndex (uniqueSources three_matches ! 0) = Some (MNumber 5)
   \<and> descriptor (three_matches ! 0) \<notin> set (uniqueSources three_matches)"
  unfolding uniqueSources_three
  by (simp add: three_matches_def stored_eq descriptor_def member_def js_def)

theorem uniqueSources_one_per_filename_witness:
  "uniqueSources three_matches ! 0 = descriptor (three_matches ! 1)
   \<and> uniqueSources three_matches ! 1 = descriptor (three_matches ! 2)
   \<and> length (uniqueSources three_matches) = 2"
  using uniqueSources_one_per_filename [of three_matches]
  unfolding uniqueSources_three
  by (simp add: three_matches_def stored_eq descriptor_def member_def js_def)

subsection \<open>The replies\<close>

text \<open>
  C9. A valid question (non-blank, at most 2000 code units after trimming) with the
  credentials configured, whose embedding succeeds and for which the store's query
  returns no matches (an empty or absent \<open>matches\<close>), gets the successful reply with the
  "no relevant content" answer, an empty source list and \<open>retrievedChunks = 0\<close>, not an
  error reply.
\<close>

theorem no_matches_is_not_an_error:
  assumes "req_json w = Inr (Str question)"
    and "trim question \<noteq> []" and "length (trim question) \<le> 2000"
    and "\<not> unset (q_GOOGLE_API_KEY w)"
    and "\<not> unset (q_PINECONE_API_KEY w)" and "\<not> unset (q_PINECONE_INDEX w)"
    and "embedQuery (query_embedder w) (q_fetch w) (trim question) = Inr v"
    and "index_query w v TOP_K = Inr found"
    and "found = None \<or> found = Some []"
  shows "POST w = AnswerReply
           (js (''No relevant content was found in the uploaded documents. ''
                @ ''Please upload a PDF first.''))
           [] 0"
proof -
  from assms(2) have "question \<noteq> []" by auto
  with assms show ?thesis
    by (auto simp: POST_def Let_def)
qed

theorem no_matches_is_not_an_error_witness:
  "POST no_matches_world = AnswerReply
           (js (''No relevant content was found in the uploaded documents. ''
                @ ''Please upload a PDF first.''))
           [] 0"
proof -
  have q: "trim (js '' How many vacation days do I get? '') = js ''How many vacation days do I get?''"
    by (simp add: trim_def js_def is_white_space_def)
  have e: "embedQuery (query_embedder no_matches_world) (q_fetch no_matches_world)
             (trim (js '' How many vacation days do I get? '')) = Inr [1 / 2]"
    by (simp add: no_matches_world_def embedQuery_def respond_with_def)
  show ?thesis
    by (rule no_matches_is_not_an_error [where v = "[1 / 2]" and found = "Some []"
          and question = "js '' How many vacation days do I get? ''"])
       (simp_all add: e, simp_all add: q, simp_all add: no_matches_world_def unset_def js_def)
qed

lemma descriptor_of_ingested:
  assumes "j < length batch"
    and "match_metadata m = Some (rec_metadata (build_records name tot stamp i batch vectors ! j))"
  shows "descriptor m = \<lparr> source = Some (MString name), chunkIndex = Some (MNumber (i + j)),
                          uploadedAt = None \<rparr>"
  using assms by (simp add: descriptor_def member_def build_records_nth js_def)

lemma POST_answer_sources:
  assumes "POST w = AnswerReply answer srcs n"
  obtains question v found where
    "req_json w = Inr (Str question)"
    "embedQuery (query_embedder w) (q_fetch w) (trim question) = Inr v"
    "index_query w v TOP_K = Inr found"
    "srcs = uniqueSources (case found of None \<Rightarrow> [] | Some ms \<Rightarrow> ms)"
    "n = length (case found of None \<Rightarrow> [] | Some ms \<Rightarrow> ms)"
proof -
  have u: "uniqueSources [] = []"
    by (simp add: uniqueSources_def new_Map_def Map_values_def)
  from assms that u show ?thesis
    by (auto simp: POST_def Let_def split: sum.splits question_field.splits if_splits)
qed

text \<open>
  C10. When the route answers from at least one match and the metadata of every match
  is metadata written by ingestion (the record built for some chunk of some file),
  every source descriptor of the reply has \<open>uploadedAt\<close> undefined, while its
  \<open>source\<close> and \<open>chunkIndex\<close> are set: ingestion stores the time under \<open>ingestedAt\<close> and
  the route reads \<open>uploadedAt\<close>.
\<close>

theorem uploadedAt_never_surfaced:
  assumes "POST w = AnswerReply answer srcs n"
    and "req_json w = Inr (Str question)"
    and "embedQuery (query_embedder w) (q_fetch w) (trim question) = Inr v"
    and "index_query w v TOP_K = Inr (Some ms)"
    and "ms \<noteq> []"
    and "\<forall>m\<in>set ms. \<exists>name tot stamp i batch vectors j. j < length batch
            \<and> match_metadata m = Some (rec_metadata (build_records name tot stamp i batch vectors ! j))"
  shows "srcs \<noteq> [] \<and> n = length ms
         \<and> (\<forall>s\<in>set srcs. uploadedAt s = None
               \<and> (\<exists>name. source s = Some (MString name))
               \<and> (\<exists>k. chunkIndex s = Some (MNumber k)))"
proof -
  from assms(1) obtain question' v' found where
    "req_json w = Inr (Str question')"
    "embedQuery (query_embedder w) (q_fetch w) (trim question') = Inr v'"
    "index_query w v' TOP_K = Inr found"
    "srcs = uniqueSources (case found of None \<Rightarrow> [] | Some ms \<Rightarrow> ms)"
    "n = length (case found of None \<Rightarrow> [] | Some ms \<Rightarrow> ms)"
    by (rule POST_answer_sources)
  with assms(2-4) have srcs: "srcs = uniqueSources ms" and n: "n = length ms" by auto
  have "uploadedAt s = None \<and> (\<exists>name. source s = Some (MString name))
          \<and> (\<exists>k. chunkIndex s = Some (MNumber k))" if "s \<in> set srcs" for s
  proof -
    from that srcs uniqueSources_subset obtain m where m: "m \<in> set ms" and s: "s = descriptor m"
      by blast
    from assms(6) m obtain name tot stamp i batch vectors j where "j < length batch"
      and "match_metadata m = Some (rec_metadata (build_records name tot stamp i batch vectors ! j))"
      by blast
    from descriptor_of_ingested [OF this] s show ?thesis by simp
  qed
  then have "\<forall>s\<in>set srcs. uploadedAt s = None \<and> (\<exists>name. source s = Some (MString name))
          \<and> (\<exists>k. chunkIndex s = Some (MNumber k))" ..
  moreover from srcs uniqueSources_nonempty [OF assms(5)] have "srcs \<noteq> []" by simp
  ultimately show ?thesis using n by simp
qed


theorem uploadedAt_never_surfaced_witness:
  "POST three_matches_world =
     AnswerReply (js ''answer'')
       [\<lparr> source = Some (MString (js ''a.pdf'')), chunkIndex = Some (MNumber 5), uploadedAt = None \<rparr>,
        \<lparr> source = Some (MString (js ''b.pdf'')), chunkIndex = Some (MNumber 1), uploadedAt = None \<rparr>]
       3"
proof -
  have q: "trim (js '' How many vacation days do I get? '') = js ''How many vacation days do I get?''"
    by (simp add: trim_def js_def is_white_space_def)
  have e: "embedQuery (query_embedder three_matches_world) (q_fetch three_matches_world)
             (trim (js '' How many vacation days do I get? '')) = Inr [1 / 2]"
    by (simp add: three_matches_world_def no_matches_world_def embedQuery_def respond_with_def)
  have r: "req_json three_matches_world = Inr (Str (js '' How many vacation days do I get? ''))"
    by (simp add: three_matches_world_def no_matches_world_def)
  have i: "index_query three_matches_world [1 / 2] TOP_K = Inr (Some three_matches)"
    by (simp add: three_matches_world_def no_matches_world_def)
  have n: "three_matches \<noteq> []"
    by (simp add: three_matches_def)
  have p: "POST three_matches_world
             = AnswerReply (js ''answer'') (uniqueSources three_matches) (length three_matches)"
    using q e r i n
    by (simp add: POST_def three_matches_world_def no_matches_world_def unset_def js_def)
  have l: "length three_matches = 3"
    by (simp add: three_matches_def)
  from uploadedAt_never_surfaced [OF p r e i n three_matches_ingested] p
  show ?thesis
    unfolding uniqueSources_three l by simp
qed
end
